theory Spec2Isabelle
  imports Main "HOL-Library.Multiset"
begin

section \<open>Data model\<close>

text \<open>
  The scripts \<^verbatim>\<open>filemail.py\<close> and \<^verbatim>\<open>fm2.py\<close> handle the file resources of the
  listing API as dictionaries. The listing request names the fields it wants
  (\<^verbatim>\<open>id, name, size, modifiedTime, parents\<close>, and \<^verbatim>\<open>webViewLink\<close> in \<^verbatim>\<open>fm2.py\<close>), so a
  dictionary has at most these keys. A key the code may find absent is an \<open>option\<close>:
  \<^verbatim>\<open>size\<close>, \<^verbatim>\<open>parents\<close> and \<^verbatim>\<open>webViewLink\<close>; \<^verbatim>\<open>id\<close>, \<^verbatim>\<open>name\<close> and
  \<^verbatim>\<open>modifiedTime\<close> are always there. The API writes a size as the decimal digits of a
  number of bytes; the record holds the integer that \<^verbatim>\<open>int(file.get('size', 0))\<close> reads
  from it, and the report prints that integer.
\<close>

record file_rec =
  file_id :: string
  file_name :: string
  file_size :: "int option"
  modifiedTime :: string
  parents :: "string list option"
  webViewLink :: "string option"

text \<open>
  What \<^verbatim>\<open>execute()\<close> of a request does: it returns the response, or it raises
  \<^verbatim>\<open>HttpError\<close>, here with the text the handlers print. (An exception of another class
  is caught nowhere and is not modelled.)
\<close>

datatype 'a api_result = HttpError string | Response 'a

text \<open>
  A response of \<^verbatim>\<open>service.files().list(...)\<close>: a dictionary with the optional keys
  \<^verbatim>\<open>files\<close> and \<^verbatim>\<open>nextPageToken\<close>.
\<close>

record page =
  page_files :: "file_rec list option"
  nextPageToken :: "string option"

type_synonym list_response = "page api_result"

text \<open>The keyword arguments of one call of \<^verbatim>\<open>service.files().list\<close>.\<close>

record list_request =
  req_q :: string
  req_spaces :: string
  req_fields :: string
  req_pageToken :: "string option"
  req_pageSize :: nat

text \<open>
  What a run writes: \<^verbatim>\<open>logging.info\<close> and \<^verbatim>\<open>logging.error\<close> in \<^verbatim>\<open>filemail.py\<close>,
  \<^verbatim>\<open>print\<close> in \<^verbatim>\<open>fm2.py\<close>.
\<close>

datatype log_entry = LogInfo string | LogError string | Printed string

text \<open>The exceptions of the code that no handler catches.\<close>

datatype py_error = KeyError string | IndexError

section \<open>Formatting integers\<close>

text \<open>\<^verbatim>\<open>str\<close> of a Python integer, as an f-string field prints it.\<close>

fun show_nat :: "nat \<Rightarrow> string" where
  "show_nat n =
     (if n < 10 then [''0123456789'' ! n]
      else show_nat (n div 10) @ [''0123456789'' ! (n mod 10)])"

declare show_nat.simps [simp del]

definition show_int :: "int \<Rightarrow> string" where
  "show_int i = (if i < 0 then CHR ''-'' # show_nat (nat (- i)) else show_nat (nat i))"

section \<open>The paginated fetcher\<close>

text \<open>
  The local variables of \<^verbatim>\<open>fetch_files\<close> that outlive an iteration (\<^verbatim>\<open>files\<close> and
  \<^verbatim>\<open>count\<close>), with the two effects of the function: the lines it logs and the requests it
  sends to the listing service.
\<close>

record fetch_state =
  files :: "file_rec list"
  fcount :: int
  logged :: "log_entry list"
  requests :: "list_request list"

definition fetch_init :: fetch_state where
  "fetch_init = \<lparr>files = [], fcount = 0, logged = [], requests = []\<rparr>"

text \<open>
  The test \<^verbatim>\<open>size_filter and int(file.get('size', 0)) <= size_filter\<close>: \<^verbatim>\<open>None\<close> and
  \<^verbatim>\<open>0\<close> are both false in Python, so neither filters anything.
\<close>

definition size_excluded :: "int option \<Rightarrow> file_rec \<Rightarrow> bool" where
  "size_excluded size_filter file =
     (case size_filter of
        None \<Rightarrow> False
      | Some t \<Rightarrow> t \<noteq> 0 \<and> (case file_size file of None \<Rightarrow> 0 | Some s \<Rightarrow> s) \<le> t)"

text \<open>\<^verbatim>\<open>if not page_token\<close>: the token is absent or the empty string.\<close>

definition no_token :: "string option \<Rightarrow> bool" where
  "no_token page_token = (case page_token of None \<Rightarrow> True | Some t \<Rightarrow> t = [])"

subsection \<open>\<^verbatim>\<open>filemail.py\<close>\<close>

definition list_request :: "string \<Rightarrow> string option \<Rightarrow> list_request" where
  "list_request query page_token =
     \<lparr>req_q = query, req_spaces = ''drive'',
      req_fields = ''nextPageToken, files(id, name, size, modifiedTime, parents)'',
      req_pageToken = page_token, req_pageSize = 1000\<rparr>"

text \<open>
  The \<^verbatim>\<open>for file in response.get('files', [])\<close> loop. The flag of the result says
  whether the loop left through \<^verbatim>\<open>return files\<close>.
\<close>

fun scan_page :: "int option \<Rightarrow> int \<Rightarrow> file_rec list \<Rightarrow> fetch_state \<Rightarrow> bool \<times> fetch_state" where
  "scan_page size_filter limit [] st = (False, st)"
| "scan_page size_filter limit (file # rest) st =
     (if size_excluded size_filter file then scan_page size_filter limit rest st
      else
        let st1 = st\<lparr>files := files st @ [file], fcount := fcount st + 1\<rparr>;
            st2 = (if fcount st1 mod 100 = 0
                   then st1\<lparr>logged := logged st1 @
                          [LogInfo (''Fetched '' @ show_int (fcount st1) @ '' files so far...'')]\<rparr>
                   else st1)
        in if fcount st2 \<ge> limit then (True, st2)
           else scan_page size_filter limit rest st2)"

text \<open>The two lines after the \<^verbatim>\<open>while\<close> loop.\<close>

definition fetch_end :: "fetch_state \<Rightarrow> fetch_state" where
  "fetch_end st =
     st\<lparr>logged := logged st @ [LogInfo (''Total files fetched: '' @ show_int (fcount st))]\<rparr>"

text \<open>
  The \<^verbatim>\<open>while True\<close> loop. The listing service is the list of the responses it gives to
  the successive requests; the loop takes one response for each request and returns the
  responses it has not asked for. \<open>None\<close> is a run that asks for a response the list
  does not hold.
\<close>

fun fetch_loop :: "string \<Rightarrow> int option \<Rightarrow> int \<Rightarrow> list_response list \<Rightarrow> string option \<Rightarrow>
    fetch_state \<Rightarrow> (fetch_state \<times> list_response list) option" where
  "fetch_loop query size_filter limit [] page_token st = None"
| "fetch_loop query size_filter limit (response # service) page_token st =
     (let st0 = st\<lparr>requests := requests st @ [list_request query page_token]\<rparr> in
      case response of
        HttpError error \<Rightarrow>
          Some (fetch_end (st0\<lparr>logged := logged st0 @
                  [LogError (''An error occurred while fetching files: '' @ error)]\<rparr>), service)
      | Response r \<Rightarrow>
          (case scan_page size_filter limit
                  (case page_files r of None \<Rightarrow> [] | Some fs \<Rightarrow> fs) st0 of
             (True, st1) \<Rightarrow> Some (st1, service)
           | (False, st1) \<Rightarrow>
               if no_token (nextPageToken r) then Some (fetch_end st1, service)
               else fetch_loop query size_filter limit service (nextPageToken r) st1))"

definition fetch_files :: "list_response list \<Rightarrow> string \<Rightarrow> int option \<Rightarrow> int \<Rightarrow>
    (fetch_state \<times> list_response list) option" where
  "fetch_files service query size_filter limit =
     fetch_loop query size_filter limit service None fetch_init"

subsection \<open>\<^verbatim>\<open>fm2.py\<close>\<close>

definition fm2_list_request :: "string \<Rightarrow> string option \<Rightarrow> list_request" where
  "fm2_list_request query page_token =
     \<lparr>req_q = query, req_spaces = ''drive'',
      req_fields = ''nextPageToken, files(id, name, size, modifiedTime, parents, webViewLink)'',
      req_pageToken = page_token, req_pageSize = 1000\<rparr>"

fun fm2_scan_page :: "int option \<Rightarrow> int \<Rightarrow> file_rec list \<Rightarrow> fetch_state \<Rightarrow> bool \<times> fetch_state" where
  "fm2_scan_page size_filter limit [] st = (False, st)"
| "fm2_scan_page size_filter limit (file # rest) st =
     (if size_excluded size_filter file then fm2_scan_page size_filter limit rest st
      else
        let st1 = st\<lparr>files := files st @ [file], fcount := fcount st + 1\<rparr>
        in if fcount st1 \<ge> limit then (True, st1)
           else fm2_scan_page size_filter limit rest st1)"

fun fm2_fetch_loop :: "string \<Rightarrow> int option \<Rightarrow> int \<Rightarrow> list_response list \<Rightarrow> string option \<Rightarrow>
    fetch_state \<Rightarrow> (fetch_state \<times> list_response list) option" where
  "fm2_fetch_loop query size_filter limit [] page_token st = None"
| "fm2_fetch_loop query size_filter limit (response # service) page_token st =
     (let st0 = st\<lparr>requests := requests st @ [fm2_list_request query page_token]\<rparr> in
      case response of
        HttpError error \<Rightarrow>
          Some (st0\<lparr>logged := logged st0 @
                  [Printed (''An error occurred while fetching files: '' @ error)]\<rparr>, service)
      | Response r \<Rightarrow>
          (case fm2_scan_page size_filter limit
                  (case page_files r of None \<Rightarrow> [] | Some fs \<Rightarrow> fs) st0 of
             (True, st1) \<Rightarrow> Some (st1, service)
           | (False, st1) \<Rightarrow>
               if no_token (nextPageToken r) then Some (st1, service)
               else fm2_fetch_loop query size_filter limit service (nextPageToken r) st1))"

definition fm2_fetch_files :: "list_response list \<Rightarrow> string \<Rightarrow> int option \<Rightarrow> int \<Rightarrow>
    (fetch_state \<times> list_response list) option" where
  "fm2_fetch_files service query size_filter limit =
     fm2_fetch_loop query size_filter limit service None fetch_init"

section \<open>The duplicate grouper\<close>

text \<open>
  \<^verbatim>\<open>file_groups\<close> is a dictionary from the tuple \<^verbatim>\<open>(name, size)\<close> to a list of
  records. A Python dictionary keeps its keys in the order of their insertion, and the report
  walks \<^verbatim>\<open>file_groups.items()\<close> in that order, so the dictionary is an association list.
\<close>

type_synonym group_key = "string \<times> int"

type_synonym file_groups = "(group_key \<times> file_rec list) list"

text \<open>\<^verbatim>\<open>key = (file['name'], file['size'])\<close>: the subscript raises on an absent size.\<close>

definition file_key :: "file_rec \<Rightarrow> py_error + group_key" where
  "file_key file =
     (case file_size file of
        None \<Rightarrow> Inl (KeyError ''size'')
      | Some s \<Rightarrow> Inr (file_name file, s))"

text \<open>\<^verbatim>\<open>file_groups.setdefault(key, []).append(file)\<close>\<close>

fun setdefault_append :: "group_key \<Rightarrow> file_rec \<Rightarrow> file_groups \<Rightarrow> file_groups" where
  "setdefault_append key file [] = [(key, [file])]"
| "setdefault_append key file ((k, fs) # groups) =
     (if k = key then (k, fs @ [file]) # groups
      else (k, fs) # setdefault_append key file groups)"

text \<open>The \<^verbatim>\<open>for file in files\<close> loop of \<^verbatim>\<open>process_duplicate_files\<close>.\<close>

fun group_loop :: "file_rec list \<Rightarrow> file_groups \<Rightarrow> py_error + file_groups" where
  "group_loop [] file_groups = Inr file_groups"
| "group_loop (file # rest) file_groups =
     (case file_key file of
        Inl err \<Rightarrow> Inl err
      | Inr key \<Rightarrow> group_loop rest (setdefault_append key file file_groups))"

definition process_duplicate_files :: "file_rec list \<Rightarrow> py_error + file_groups" where
  "process_duplicate_files files_in = group_loop files_in []"

text \<open>
  The caller's selection in \<^verbatim>\<open>main\<close>:
  \<^verbatim>\<open>[files for files in file_groups.values() if len(files) > 1]\<close>
\<close>

definition duplicate_files :: "file_groups \<Rightarrow> file_rec list list" where
  "duplicate_files file_groups = filter (\<lambda>fs. length fs > 1) (map snd file_groups)"

section \<open>The report\<close>

text \<open>
  \<^verbatim>\<open>''.join(f(x) for x in xs)\<close>: the pieces in order; the first exception of a piece leaves
  the whole expression.
\<close>

fun join_items :: "('a \<Rightarrow> py_error + string) \<Rightarrow> 'a list \<Rightarrow> py_error + string" where
  "join_items f [] = Inr []"
| "join_items f (x # xs) =
     (case f x of
        Inl err \<Rightarrow> Inl err
      | Inr s \<Rightarrow> (case join_items f xs of Inl err \<Rightarrow> Inl err | Inr t \<Rightarrow> Inr (s @ t)))"

text \<open>
  \<^verbatim>\<open><li>{file['name']} ({file['size']} bytes, last modified {file['modifiedTime']})</li>\<close>
\<close>

definition large_item :: "file_rec \<Rightarrow> py_error + string" where
  "large_item file =
     (case file_size file of
        None \<Rightarrow> Inl (KeyError ''size'')
      | Some s \<Rightarrow>
          Inr (''<li>'' @ file_name file @ '' ('' @ show_int s @ '' bytes, last modified '' @
               modifiedTime file @ '')</li>''))"

text \<open>\<^verbatim>\<open><li>{file['name']} (last modified {file['modifiedTime']})</li>\<close>\<close>

definition doc_item :: "file_rec \<Rightarrow> py_error + string" where
  "doc_item file =
     Inr (''<li>'' @ file_name file @ '' (last modified '' @ modifiedTime file @ '')</li>'')"

text \<open>
  \<^verbatim>\<open><li>ID: {f['id']} (parent folder: {f.get('parents', ['unknown'])[0]})</li>\<close>: the
  default stands in for an absent key only, and \<^verbatim>\<open>[0]\<close> of an empty list raises.
\<close>

definition member_item :: "file_rec \<Rightarrow> py_error + string" where
  "member_item f =
     (case (case parents f of None \<Rightarrow> [''unknown''] | Some ps \<Rightarrow> ps) of
        [] \<Rightarrow> Inl IndexError
      | parent # others \<Rightarrow>
          Inr (''<li>ID: '' @ file_id f @ '' (parent folder: '' @ parent @ '')</li>''))"

text \<open>\<^verbatim>\<open><li>{key[0]} ({key[1]} bytes):<ul>{''.join(... for f in files)}</ul></li>\<close>\<close>

definition group_item :: "group_key \<times> file_rec list \<Rightarrow> py_error + string" where
  "group_item item =
     (case join_items member_item (snd item) of
        Inl err \<Rightarrow> Inl err
      | Inr members \<Rightarrow>
          Inr (''<li>'' @ fst (fst item) @ '' ('' @ show_int (snd (fst item)) @ '' bytes):<ul>'' @
               members @ ''</ul></li>''))"

text \<open>The fixed text of the f-string of \<^verbatim>\<open>filemail.py\<close> between its three fields.\<close>

definition report_head :: string where
  "report_head =
     ''\<newline>    <html>\<newline>      <body>\<newline>'' @
     ''        <h1>Google Drive Report</h1>\<newline>'' @
     ''        <h2>Large Files (over 10MB) not modified for 12 months:</h2>\<newline>'' @
     ''        <ul>\<newline>          ''"

definition report_docs_head :: string where
  "report_docs_head =
     ''\<newline>        </ul>\<newline>'' @
     ''        <h2>Google Docs not modified for 24 months:</h2>\<newline>'' @
     ''        <ul>\<newline>          ''"

definition report_duplicates_head :: string where
  "report_duplicates_head =
     ''\<newline>        </ul>\<newline>'' @
     ''        <h2>Duplicate Files (over 10MB):</h2>\<newline>'' @
     ''        <ul>\<newline>          ''"

definition report_tail :: string where
  "report_tail =
     ''\<newline>        </ul>\<newline>      </body>\<newline>    </html>\<newline>    ''"

text \<open>
  The report of \<^verbatim>\<open>filemail.py\<close>: the f-string of \<^verbatim>\<open>main\<close>, whose fields are evaluated
  from left to right. The third field walks \<^verbatim>\<open>file_groups.items()\<close> and keeps the groups
  of more than one record.
\<close>

definition report :: "file_rec list \<Rightarrow> file_rec list \<Rightarrow> file_groups \<Rightarrow> py_error + string" where
  "report large_files old_docs file_groups =
     (case join_items large_item large_files of
        Inl err \<Rightarrow> Inl err
      | Inr large \<Rightarrow>
     (case join_items doc_item old_docs of
        Inl err \<Rightarrow> Inl err
      | Inr docs \<Rightarrow>
     (case join_items group_item (filter (\<lambda>item. length (snd item) > 1) file_groups) of
        Inl err \<Rightarrow> Inl err
      | Inr duplicates \<Rightarrow>
          Inr (report_head @ large @ report_docs_head @ docs @ report_duplicates_head @
               duplicates @ report_tail))))"

text \<open>
  \<^verbatim>\<open>fm2.py\<close>:
  \<^verbatim>\<open><li><a href='{file['webViewLink']}'>{file['name']}</a> (last modified ...)</li>\<close>
\<close>

definition fm2_doc_item :: "file_rec \<Rightarrow> py_error + string" where
  "fm2_doc_item file =
     (case webViewLink file of
        None \<Rightarrow> Inl (KeyError ''webViewLink'')
      | Some link \<Rightarrow>
          Inr (''<li><a href='' @ [CHR 0x27] @ link @ [CHR 0x27] @ ''>'' @ file_name file @
               ''</a> (last modified '' @ modifiedTime file @ '')</li>''))"

definition fm2_report_head :: string where
  "fm2_report_head =
     ''\<newline>    <html>\<newline>      <body>\<newline>'' @
     ''        <h1>Google Drive Report</h1>\<newline>'' @
     ''        <h2>Large Files (over 20MB) not modified for 12 months:</h2>\<newline>'' @
     ''        <h3>Limited to a fetch of 100 files </h3>'' @ replicate 56 CHR '' '' @ ''\<newline>'' @
     ''        <ul>\<newline>          ''"

definition fm2_report :: "file_rec list \<Rightarrow> file_rec list \<Rightarrow> py_error + string" where
  "fm2_report large_files old_docs =
     (case join_items large_item large_files of
        Inl err \<Rightarrow> Inl err
      | Inr large \<Rightarrow>
     (case join_items fm2_doc_item old_docs of
        Inl err \<Rightarrow> Inl err
      | Inr docs \<Rightarrow>
          Inr (fm2_report_head @ large @ report_docs_head @ docs @ report_tail)))"

section \<open>The dispatcher\<close>

text \<open>
  The message that \<^verbatim>\<open>send_email\<close> builds, before its encoding, and the effects of the
  function: the messages handed to the mail service and the lines logged. The mail service
  answers a message with a response that carries the message identifier, or raises.
\<close>

record mail_message =
  msg_to :: string
  msg_subject :: string
  msg_html :: string

record mail_state =
  mail_sent :: "mail_message list"
  mail_logged :: "log_entry list"

definition send_email :: "(mail_message \<Rightarrow> string api_result) \<Rightarrow> string \<Rightarrow> string \<Rightarrow>
    mail_state \<Rightarrow> mail_state" where
  "send_email gmail_service message_text recipient st =
     (let message = \<lparr>msg_to = recipient, msg_subject = ''Google Drive Report'',
                      msg_html = message_text\<rparr>;
          st1 = st\<lparr>mail_sent := mail_sent st @ [message]\<rparr>
      in case gmail_service message of
           Response message_id \<Rightarrow>
             st1\<lparr>mail_logged := mail_logged st1 @ [LogInfo (''Message Id: '' @ message_id)]\<rparr>
         | HttpError error \<Rightarrow>
             st1\<lparr>mail_logged := mail_logged st1 @
                   [LogError (''An error occurred while sending email: '' @ error)]\<rparr>)"

definition fm2_send_email :: "(mail_message \<Rightarrow> string api_result) \<Rightarrow> string \<Rightarrow> string \<Rightarrow>
    mail_state \<Rightarrow> mail_state" where
  "fm2_send_email gmail_service message_text recipient st =
     (let message = \<lparr>msg_to = recipient, msg_subject = ''Google Drive Report'',
                      msg_html = message_text\<rparr>;
          st1 = st\<lparr>mail_sent := mail_sent st @ [message]\<rparr>
      in case gmail_service message of
           Response message_id \<Rightarrow>
             st1\<lparr>mail_logged := mail_logged st1 @ [Printed (''Message Id: '' @ message_id)]\<rparr>
         | HttpError error \<Rightarrow>
             st1\<lparr>mail_logged := mail_logged st1 @
                   [Printed (''An error occurred while sending email: '' @ error)]\<rparr>)"

section \<open>The run\<close>

text \<open>
  \<^verbatim>\<open>main\<close> of \<^verbatim>\<open>filemail.py\<close>, after \<^verbatim>\<open>authenticate\<close> and the construction of the two
  services. Its inputs are the answers of the listing service, the mail service, and the two
  strings \<^verbatim>\<open>twelve_months_ago_str\<close> and \<^verbatim>\<open>twenty_four_months_ago_str\<close> that it computes
  from the clock. The result is \<open>None\<close> when the listing service leaves a request
  unanswered, \<open>Inl\<close> the exception that leaves \<^verbatim>\<open>main\<close>, and otherwise the messages handed
  to the mail service with the lines logged.
\<close>

definition main :: "list_response list \<Rightarrow> (mail_message \<Rightarrow> string api_result) \<Rightarrow> string \<Rightarrow> string \<Rightarrow>
    (py_error + mail_state) option" where
  "main service gmail_service twelve_months_ago_str twenty_four_months_ago_str =
     (let large_files_query =
            ''(modifiedTime < '' @ [CHR 0x27] @ twelve_months_ago_str @ [CHR 0x27] @ '')'';
          old_docs_query =
            ''(mimeType='' @ [CHR 0x27] @ ''application/vnd.google-apps.document'' @ [CHR 0x27] @
            '') and (modifiedTime < '' @ [CHR 0x27] @ twenty_four_months_ago_str @ [CHR 0x27] @
            '')'';
          duplicate_files_query =
            ''(modifiedTime < '' @ [CHR 0x27] @ twelve_months_ago_str @ [CHR 0x27] @ '')''
      in
      case fetch_files service large_files_query (Some 10485760) 1000 of
        None \<Rightarrow> None
      | Some (large, service1) \<Rightarrow>
      (case fetch_files service1 old_docs_query None 1000 of
        None \<Rightarrow> None
      | Some (docs, service2) \<Rightarrow>
      (case fetch_files service2 duplicate_files_query (Some 10485760) 1000 of
        None \<Rightarrow> None
      | Some (raw, service3) \<Rightarrow>
      (case process_duplicate_files (files raw) of
        Inl err \<Rightarrow> Some (Inl err)
      | Inr file_groups \<Rightarrow>
      (case report (files large) (files docs) file_groups of
        Inl err \<Rightarrow> Some (Inl err)
      | Inr text \<Rightarrow>
          let lines =
                [LogInfo ''Fetching large files...''] @ logged large @
                [LogInfo (''Fetched '' @ show_int (int (length (files large))) @ '' large files.''),
                 LogInfo ''Fetching old Google Docs...''] @ logged docs @
                [LogInfo (''Fetched '' @ show_int (int (length (files docs))) @
                          '' old Google Docs.''),
                 LogInfo ''Fetching potential duplicate files...''] @ logged raw @
                [LogInfo (''Found '' @ show_int (int (length (duplicate_files file_groups))) @
                          '' groups of duplicate files.''),
                 LogInfo ''Sending email report...''];
              st = send_email gmail_service text ''me@gmail.com''
                     \<lparr>mail_sent = [], mail_logged = lines\<rparr>
          in Some (Inr (st\<lparr>mail_logged := mail_logged st @
                              [LogInfo ''Email report sent successfully.'']\<rparr>)))))))"

text \<open>\<^verbatim>\<open>main\<close> of \<^verbatim>\<open>fm2.py\<close>, one call of it.\<close>

definition fm2_main :: "list_response list \<Rightarrow> (mail_message \<Rightarrow> string api_result) \<Rightarrow> string \<Rightarrow> string \<Rightarrow>
    (py_error + mail_state) option" where
  "fm2_main service gmail_service twelve_months_ago_str twenty_four_months_ago_str =
     (let large_files_query =
            ''modifiedTime < '' @ [CHR 0x27] @ twelve_months_ago_str @ [CHR 0x27];
          old_docs_query =
            ''mimeType='' @ [CHR 0x27] @ ''application/vnd.google-apps.document'' @ [CHR 0x27] @
            '' and modifiedTime < '' @ [CHR 0x27] @ twenty_four_months_ago_str @ [CHR 0x27]
      in
      case fm2_fetch_files service large_files_query (Some 20971520) 100 of
        None \<Rightarrow> None
      | Some (large, service1) \<Rightarrow>
      (case fm2_fetch_files service1 old_docs_query None 100 of
        None \<Rightarrow> None
      | Some (docs, service2) \<Rightarrow>
      (case fm2_report (files large) (files docs) of
        Inl err \<Rightarrow> Some (Inl err)
      | Inr text \<Rightarrow>
          let st = fm2_send_email gmail_service text ''danhathway@gmail.com''
                     \<lparr>mail_sent = [], mail_logged = logged large @ logged docs\<rparr>
          in Some (Inr (st\<lparr>mail_logged := mail_logged st @
                              [Printed ''Email report sent successfully.'']\<rparr>)))))"

section \<open>Vocabulary of the statements\<close>

text \<open>The records of a response: those of its \<^verbatim>\<open>files\<close> key, none for a failed request.\<close>

definition page_records :: "list_response \<Rightarrow> file_rec list" where
  "page_records response =
     (case response of
        HttpError error \<Rightarrow> []
      | Response r \<Rightarrow> (case page_files r of None \<Rightarrow> [] | Some fs \<Rightarrow> fs))"

definition all_records :: "list_response list \<Rightarrow> file_rec list" where
  "all_records service = concat (map page_records service)"

text \<open>The records that pass the size test, in their order.\<close>

definition accepted :: "int option \<Rightarrow> file_rec list \<Rightarrow> file_rec list" where
  "accepted size_filter fs = filter (\<lambda>f. \<not> size_excluded size_filter f) fs"

text \<open>A response after which the loop asks for another page, unless the limit stops it.\<close>

definition continues :: "list_response \<Rightarrow> bool" where
  "continues response =
     (case response of
        HttpError error \<Rightarrow> False
      | Response r \<Rightarrow> \<not> no_token (nextPageToken r))"

text \<open>The size of a record as the size test reads it: \<^verbatim>\<open>int(file.get('size', 0))\<close>.\<close>

definition size_or_0 :: "file_rec \<Rightarrow> int" where
  "size_or_0 file = (case file_size file of None \<Rightarrow> 0 | Some s \<Rightarrow> s)"

text \<open>The value that \<^verbatim>\<open>return files\<close> hands to the caller.\<close>

definition returned :: "(fetch_state \<times> list_response list) option \<Rightarrow> file_rec list option" where
  "returned result = map_option (files \<circ> fst) result"

text \<open>A response without the records that the size test rejects.\<close>

definition without_excluded :: "int option \<Rightarrow> list_response \<Rightarrow> list_response" where
  "without_excluded size_filter response =
     (case response of
        HttpError error \<Rightarrow> HttpError error
      | Response r \<Rightarrow> Response (r\<lparr>page_files := map_option (accepted size_filter) (page_files r)\<rparr>))"

text \<open>
  The records of a sequence whose key \<^verbatim>\<open>(name, size)\<close> is \<open>key\<close>, in the order of the
  sequence.
\<close>

definition members_of :: "group_key \<Rightarrow> file_rec list \<Rightarrow> file_rec list" where
  "members_of key fs = filter (\<lambda>f. file_key f = Inr key) fs"

text \<open>
  The dictionary \<open>g\<close> groups the records \<open>seen\<close>: its keys are distinct, and it maps a
  key to the records of \<open>seen\<close> with that key when there are any.
\<close>

definition grouped :: "file_groups \<Rightarrow> file_rec list \<Rightarrow> bool" where
  "grouped g seen \<longleftrightarrow>
     distinct (map fst g) \<and>
     (\<forall>k. map_of g k = (if members_of k seen = [] then None else Some (members_of k seen)))"

text \<open>A logged or printed line that gives a message identifier.\<close>

definition message_id_line :: "log_entry \<Rightarrow> bool" where
  "message_id_line entry =
     (case entry of
        LogInfo s \<Rightarrow> take 12 s = ''Message Id: ''
      | LogError s \<Rightarrow> False
      | Printed s \<Rightarrow> take 12 s = ''Message Id: '')"

text \<open>The message that \<^verbatim>\<open>send_email\<close> hands to the mail service.\<close>

definition report_message :: "string \<Rightarrow> string \<Rightarrow> mail_message" where
  "report_message message_text recipient =
     \<lparr>msg_to = recipient, msg_subject = ''Google Drive Report'', msg_html = message_text\<rparr>"

text \<open>
  A run of \<^verbatim>\<open>main\<close> that reaches its last line.
\<close>

definition completes :: "(py_error + mail_state) option \<Rightarrow> bool" where
  "completes result = (case result of None \<Rightarrow> False | Some (Inl err) \<Rightarrow> False | Some (Inr st) \<Rightarrow> True)"

text \<open>
  What a call of \<^verbatim>\<open>fetch_files\<close> leaves behind for the rest of a run: the records it
  returns, the lines it logs and the responses it has not asked for.
\<close>

definition outcome :: "(fetch_state \<times> list_response list) option \<Rightarrow>
    (file_rec list \<times> log_entry list \<times> list_response list) option" where
  "outcome result = map_option (\<lambda>(r, rest). (files r, logged r, rest)) result"

text \<open>Sample records and pages for the concrete runs below.\<close>

definition example_file :: "string \<Rightarrow> string \<Rightarrow> int option \<Rightarrow> file_rec" where
  "example_file i n s =
     \<lparr>file_id = i, file_name = n, file_size = s, modifiedTime = ''2020-01-01T00:00:00.000Z'',
      parents = None, webViewLink = None\<rparr>"

definition example_page :: "file_rec list \<Rightarrow> string option \<Rightarrow> list_response" where
  "example_page fs token = Response \<lparr>page_files = Some fs, nextPageToken = token\<rparr>"

section \<open>Properties of the fetcher\<close>

subsection \<open>One page\<close>

lemma scan_page_char:
  "scan_page sf limit fs st = (flag, st') \<Longrightarrow>
     files st' = files st @ take (nat (max 1 (limit - fcount st))) (accepted sf fs) \<and>
     fcount st' = fcount st + int (min (nat (max 1 (limit - fcount st))) (length (accepted sf fs))) \<and>
     flag = (nat (max 1 (limit - fcount st)) \<le> length (accepted sf fs)) \<and>
     requests st' = requests st"
proof (induction fs arbitrary: st)
  case Nil
  then show ?case by (auto simp: accepted_def)
next
  case (Cons f fs)
  show ?case
  proof (cases "size_excluded sf f")
    case True
    with Cons show ?thesis by (simp add: accepted_def)
  next
    case False
    define st2 where "st2 =
      (if (fcount st + 1) mod 100 = 0
       then st\<lparr>files := files st @ [f], fcount := fcount st + 1,
               logged := logged st @
                 [LogInfo (''Fetched '' @ show_int (fcount st + 1) @ '' files so far...'')]\<rparr>
       else st\<lparr>files := files st @ [f], fcount := fcount st + 1\<rparr>)"
    have st2: "files st2 = files st @ [f]" "fcount st2 = fcount st + 1"
      "requests st2 = requests st"
      by (simp_all add: st2_def)
    show ?thesis
    proof (cases "fcount st + 1 \<ge> limit")
      case True
      with False Cons.prems have "flag" "st' = st2"
        by (auto simp: Let_def st2_def split: if_splits)
      from True have d: "nat (max 1 (limit - fcount st)) = Suc 0"
        by (auto simp: max_def)
      from \<open>flag\<close> \<open>st' = st2\<close> st2 False show ?thesis
        unfolding d by (simp add: accepted_def)
    next
      case ge: False
      with False Cons.prems have "scan_page sf limit fs st2 = (flag, st')"
        by (auto simp: Let_def st2_def split: if_splits)
      note ih = Cons.IH[OF this]
      from ge have d: "nat (max 1 (limit - fcount st)) =
          Suc (nat (max 1 (limit - (fcount st + 1))))"
        by (auto simp: max_def nat_eq_iff)
      from ih st2 False show ?thesis
        unfolding d by (simp add: accepted_def)
    qed
  qed
qed

lemma fm2_scan_page_char:
  "fm2_scan_page sf limit fs st = (flag, st') \<Longrightarrow>
     files st' = files st @ take (nat (max 1 (limit - fcount st))) (accepted sf fs) \<and>
     fcount st' = fcount st + int (min (nat (max 1 (limit - fcount st))) (length (accepted sf fs))) \<and>
     flag = (nat (max 1 (limit - fcount st)) \<le> length (accepted sf fs)) \<and>
     requests st' = requests st \<and> logged st' = logged st"
proof (induction fs arbitrary: st)
  case Nil
  then show ?case by (auto simp: accepted_def)
next
  case (Cons f fs)
  show ?case
  proof (cases "size_excluded sf f")
    case True
    with Cons show ?thesis by (simp add: accepted_def)
  next
    case False
    define st1 where "st1 = st\<lparr>files := files st @ [f], fcount := fcount st + 1\<rparr>"
    have st1: "files st1 = files st @ [f]" "fcount st1 = fcount st + 1"
      "requests st1 = requests st" "logged st1 = logged st"
      by (simp_all add: st1_def)
    show ?thesis
    proof (cases "fcount st + 1 \<ge> limit")
      case True
      with False Cons.prems have "flag" "st' = st1"
        by (auto simp: Let_def st1_def split: if_splits)
      from True have d: "nat (max 1 (limit - fcount st)) = Suc 0"
        by (auto simp: max_def)
      from \<open>flag\<close> \<open>st' = st1\<close> st1 False show ?thesis
        unfolding d by (simp add: accepted_def)
    next
      case ge: False
      with False Cons.prems have "fm2_scan_page sf limit fs st1 = (flag, st')"
        by (auto simp: Let_def st1_def split: if_splits)
      note ih = Cons.IH[OF this]
      from ge have d: "nat (max 1 (limit - fcount st)) =
          Suc (nat (max 1 (limit - (fcount st + 1))))"
        by (auto simp: max_def nat_eq_iff)
      from ih st1 False show ?thesis
        unfolding d by (simp add: accepted_def)
    qed
  qed
qed

subsection \<open>The loop over the pages\<close>

lemma accepted_append: "accepted sf (xs @ ys) = accepted sf xs @ accepted sf ys"
  by (simp add: accepted_def)

lemma all_records_Cons: "all_records (r # rs) = page_records r @ all_records rs"
  by (simp add: all_records_def)

lemma fetch_end_fields [simp]:
  "files (fetch_end st) = files st" "fcount (fetch_end st) = fcount st"
  "requests (fetch_end st) = requests st"
  by (simp_all add: fetch_end_def)

lemma fetch_loop_prefix:
  "fetch_loop q sf limit rs tok st = Some (r, rest) \<Longrightarrow>
   fcount st = int (length (files st)) \<Longrightarrow>
   (\<exists>n. files r = files st @ take n (accepted sf (all_records rs))) \<and>
   fcount r = int (length (files r)) \<and>
   (fcount st < limit \<longrightarrow> fcount r \<le> limit)"
proof (induction rs arbitrary: tok st)
  case Nil
  then show ?case by simp
next
  case (Cons resp rs)
  define st0 where "st0 = st\<lparr>requests := requests st @ [list_request q tok]\<rparr>"
  have st0: "files st0 = files st" "fcount st0 = fcount st" by (simp_all add: st0_def)
  show ?case
  proof (cases resp)
    case (HttpError e)
    with Cons.prems have "files r = files st" "fcount r = fcount st"
      by (auto simp: Let_def)
    with Cons.prems(2) show ?thesis
      by (auto intro: exI[of _ 0])
  next
    case (Response p)
    obtain flag st1 where sc: "scan_page sf limit (page_records resp) st0 = (flag, st1)"
      by (cases "scan_page sf limit (page_records resp) st0") auto
    define acc where "acc = accepted sf (page_records resp)"
    define d where "d = nat (max 1 (limit - fcount st))"
    from scan_page_char[OF sc] st0
    have st1: "files st1 = files st @ take d acc"
      "fcount st1 = fcount st + int (min d (length acc))"
      "flag = (d \<le> length acc)"
      by (simp_all add: acc_def d_def)
    have cnt1: "fcount st1 = int (length (files st1))"
      using st1 Cons.prems(2) by simp
    have lim1: "fcount st < limit \<Longrightarrow> fcount st1 \<le> limit"
      using st1(2) by (auto simp: d_def min_def max_def)
    have pre1: "files st1 = files st @ take d (accepted sf (all_records (resp # rs)))" if "flag"
      using that st1 by (simp add: all_records_Cons accepted_append acc_def)
    have sc': "scan_page sf limit (case page_files p of None \<Rightarrow> [] | Some fs \<Rightarrow> fs) st0 = (flag, st1)"
      using sc Response by (simp add: page_records_def)
    show ?thesis
    proof (cases flag)
      case True
      with Cons.prems(1) Response sc' have "r = st1"
        by (simp add: Let_def st0_def)
      with pre1[OF True] cnt1 lim1 show ?thesis by blast
    next
      case False
      with st1 have all1: "files st1 = files st @ acc" and lt: "length acc < d" by simp_all
      have lim2: "fcount st < limit \<Longrightarrow> fcount st1 < limit"
        using st1(2) lt by (auto simp: d_def min_def max_def)
      show ?thesis
      proof (cases "no_token (nextPageToken p)")
        case True
        with Cons.prems(1) Response sc' False have "r = fetch_end st1"
          by (simp add: Let_def st0_def)
        then have "files r = files st @ take (length acc) (accepted sf (all_records (resp # rs)))"
          using all1 by (simp add: all_records_Cons accepted_append acc_def)
        with \<open>r = fetch_end st1\<close> cnt1 lim1 show ?thesis by auto
      next
        case nt: False
        with Cons.prems(1) Response sc' False
        have "fetch_loop q sf limit rs (nextPageToken p) st1 = Some (r, rest)"
          by (simp add: Let_def st0_def)
        from Cons.IH[OF this cnt1] obtain n where
          n: "files r = files st1 @ take n (accepted sf (all_records rs))"
          and c: "fcount r = int (length (files r))"
          and l: "fcount st1 < limit \<longrightarrow> fcount r \<le> limit" by blast
        from n all1 have "files r = files st @ take (length acc + n) (accepted sf (all_records (resp # rs)))"
          by (simp add: all_records_Cons accepted_append acc_def)
        with c l lim2 show ?thesis by blast
      qed
    qed
  qed
qed

lemma all_records_append: "all_records (xs @ ys) = all_records xs @ all_records ys"
  by (simp add: all_records_def)

lemma fetch_loop_run:
  "list_all continues pre \<Longrightarrow>
   int (length (accepted sf (all_records pre))) < max 1 (limit - fcount st) \<Longrightarrow>
   \<exists>st' tok'. fetch_loop q sf limit (pre @ rest) tok st = fetch_loop q sf limit rest tok' st' \<and>
     files st' = files st @ accepted sf (all_records pre) \<and>
     fcount st' = fcount st + int (length (accepted sf (all_records pre))) \<and>
     length (requests st') = length (requests st) + length pre"
proof (induction pre arbitrary: tok st)
  case Nil
  show ?case by (rule exI[of _ st], rule exI[of _ tok]) (simp add: all_records_def accepted_def)
next
  case (Cons resp pre)
  from Cons.prems(1) have c: "continues resp" and pre: "list_all continues pre"
    by simp_all
  from c obtain p where resp: "resp = Response p" and tk: "\<not> no_token (nextPageToken p)"
    by (cases resp) (simp_all add: continues_def)
  define st0 where "st0 = st\<lparr>requests := requests st @ [list_request q tok]\<rparr>"
  have st0: "files st0 = files st" "fcount st0 = fcount st"
    "requests st0 = requests st @ [list_request q tok]" by (simp_all add: st0_def)
  obtain flag st1 where sc: "scan_page sf limit (page_records resp) st0 = (flag, st1)"
    by (cases "scan_page sf limit (page_records resp) st0") auto
  define acc where "acc = accepted sf (page_records resp)"
  define acc' where "acc' = accepted sf (all_records pre)"
  define d where "d = nat (max 1 (limit - fcount st))"
  from Cons.prems(2) have lt: "length acc + length acc' < d"
    by (simp add: all_records_Cons accepted_append acc_def acc'_def d_def)
  from scan_page_char[OF sc] st0 lt
  have st1: "files st1 = files st @ acc" "fcount st1 = fcount st + int (length acc)"
    "\<not> flag" "requests st1 = requests st @ [list_request q tok]"
    by (simp_all add: acc_def d_def)
  have sc': "scan_page sf limit (case page_files p of None \<Rightarrow> [] | Some fs \<Rightarrow> fs) st0 = (False, st1)"
    using sc resp st1(3) by (simp add: page_records_def)
  have step: "fetch_loop q sf limit ((resp # pre) @ rest) tok st =
      fetch_loop q sf limit (pre @ rest) (nextPageToken p) st1"
    using resp sc' tk by (simp add: Let_def st0_def)
  from Cons.prems(2) have "int (length acc) + int (length acc') < max 1 (limit - fcount st)"
    by (simp add: all_records_Cons accepted_append acc_def acc'_def)
  then have "int (length acc') < max 1 (limit - fcount st1)"
    unfolding st1(2) by arith
  from Cons.IH[OF pre this[unfolded acc'_def], of "nextPageToken p"] obtain st' tok' where
    "fetch_loop q sf limit (pre @ rest) (nextPageToken p) st1 = fetch_loop q sf limit rest tok' st'"
    "files st' = files st1 @ acc'" "fcount st' = fcount st1 + int (length acc')"
    "length (requests st') = length (requests st1) + length pre"
    unfolding acc'_def by blast
  with step st1 have
    "fetch_loop q sf limit ((resp # pre) @ rest) tok st = fetch_loop q sf limit rest tok' st' \<and>
     files st' = files st @ accepted sf (all_records (resp # pre)) \<and>
     fcount st' = fcount st + int (length (accepted sf (all_records (resp # pre)))) \<and>
     length (requests st') = length (requests st) + length (resp # pre)"
    by (simp add: all_records_Cons accepted_append acc_def acc'_def)
  then show ?case by blast
qed

lemma fetch_loops_agree:
  "files st = files st' \<Longrightarrow> fcount st = fcount st' \<Longrightarrow>
   map req_pageToken (requests st) = map req_pageToken (requests st') \<Longrightarrow>
   map_option (\<lambda>(r, rest). (files r, fcount r, map req_pageToken (requests r), rest))
      (fetch_loop q sf limit rs tok st) =
   map_option (\<lambda>(r, rest). (files r, fcount r, map req_pageToken (requests r), rest))
      (fm2_fetch_loop q sf limit rs tok st')"
proof (induction rs arbitrary: tok st st')
  case Nil
  show ?case by simp
next
  case (Cons resp rs)
  define st0 where "st0 = st\<lparr>requests := requests st @ [list_request q tok]\<rparr>"
  define st0' where "st0' = st'\<lparr>requests := requests st' @ [fm2_list_request q tok]\<rparr>"
  have eq0: "files st0 = files st0'" "fcount st0 = fcount st0'"
    "map req_pageToken (requests st0) = map req_pageToken (requests st0')"
    using Cons.prems by (simp_all add: st0_def st0'_def list_request_def fm2_list_request_def)
  show ?case
  proof (cases resp)
    case (HttpError e)
    then show ?thesis using eq0 by (simp add: Let_def st0_def st0'_def)
  next
    case (Response p)
    define fs where "fs = (case page_files p of None \<Rightarrow> [] | Some fs \<Rightarrow> fs)"
    obtain flag st1 where sc: "scan_page sf limit fs st0 = (flag, st1)"
      by (cases "scan_page sf limit fs st0") auto
    obtain flag' st1' where sc': "fm2_scan_page sf limit fs st0' = (flag', st1')"
      by (cases "fm2_scan_page sf limit fs st0'") auto
    from scan_page_char[OF sc] fm2_scan_page_char[OF sc'] eq0
    have eq1: "files st1 = files st1'" "fcount st1 = fcount st1'" "flag = flag'"
      "map req_pageToken (requests st1) = map req_pageToken (requests st1')"
      by simp_all
    show ?thesis
    proof (cases flag)
      case True
      with Response sc sc' eq1 show ?thesis
        by (simp add: Let_def st0_def[symmetric] st0'_def[symmetric] fs_def[symmetric])
    next
      case False
      with Response sc sc' eq1 Cons.IH[OF eq1(1,2,4)] show ?thesis
        by (simp add: Let_def st0_def[symmetric] st0'_def[symmetric] fs_def[symmetric])
    qed
  qed
qed

lemma size_excluded_zero: "size_excluded (Some 0) f = size_excluded None f"
  by (simp add: size_excluded_def)

lemma scan_page_zero: "scan_page (Some 0) limit fs st = scan_page None limit fs st"
  by (induction fs arbitrary: st) (simp_all add: size_excluded_zero Let_def)

lemma fm2_scan_page_zero: "fm2_scan_page (Some 0) limit fs st = fm2_scan_page None limit fs st"
  by (induction fs arbitrary: st) (simp_all add: size_excluded_zero Let_def)

lemma fetch_loop_zero: "fetch_loop q (Some 0) limit rs tok st = fetch_loop q None limit rs tok st"
  by (induction rs arbitrary: tok st)
     (simp_all add: scan_page_zero Let_def split: api_result.splits prod.splits bool.splits)

lemma fm2_fetch_loop_zero: "fm2_fetch_loop q (Some 0) limit rs tok st = fm2_fetch_loop q None limit rs tok st"
  by (induction rs arbitrary: tok st)
     (simp_all add: fm2_scan_page_zero Let_def split: api_result.splits prod.splits bool.splits)

lemmas example_defs = example_file_def example_page_def
lemmas fetch_eval = fetch_files_def fetch_init_def fetch_end_def list_request_def returned_def
  size_excluded_def no_token_def Let_def show_int_def

subsection \<open>The limit\<close>

text \<open>
  Claim C3, for a limit of at least one. Whatever the listing service answers, a call that
  returns hands back at most \<open>limit\<close> records. When the pages \<open>pre\<close> hold fewer
  accepted records than the limit and the page \<open>p\<close> brings the count to the limit, the
  call returns the first \<open>limit\<close> accepted records of these pages: the rest of \<open>p\<close> is
  dropped, the request that fetched \<open>p\<close> is the last one, and the later responses are
  never asked for.
\<close>

theorem fetch_files_limit:
  assumes "1 \<le> limit"
  shows "(\<forall>r rest. fetch_files service q sf limit = Some (r, rest) \<longrightarrow>
            int (length (files r)) \<le> limit) \<and>
         (list_all continues pre \<and>
          int (length (accepted sf (all_records pre))) < limit \<and>
          limit \<le> int (length (accepted sf (all_records (pre @ [Response p])))) \<longrightarrow>
            (\<exists>r. fetch_files (pre @ Response p # later) q sf limit = Some (r, later) \<and>
                 files r = take (nat limit) (accepted sf (all_records (pre @ [Response p]))) \<and>
                 length (requests r) = length pre + 1))"
proof (intro conjI allI impI)
  fix r rest
  assume "fetch_files service q sf limit = Some (r, rest)"
  then have "fetch_loop q sf limit service None fetch_init = Some (r, rest)"
    by (simp add: fetch_files_def)
  from fetch_loop_prefix[OF this] assms show "int (length (files r)) \<le> limit"
    by (simp add: fetch_init_def)
next
  assume h: "list_all continues pre \<and>
          int (length (accepted sf (all_records pre))) < limit \<and>
          limit \<le> int (length (accepted sf (all_records (pre @ [Response p]))))"
  define acc where "acc = accepted sf (all_records pre)"
  define accp where "accp = accepted sf (page_records (Response p))"
  from h have lt: "int (length acc) < limit" and ge: "limit \<le> int (length acc) + int (length accp)"
    by (simp_all add: acc_def accp_def all_records_append all_records_Cons accepted_append all_records_def)
  from h lt have "int (length (accepted sf (all_records pre))) < max 1 (limit - fcount fetch_init)"
    by (simp add: fetch_init_def acc_def)
  from fetch_loop_run[OF _ this, of q "Response p # later" None] h
  obtain st' tok' where run: "fetch_loop q sf limit (pre @ Response p # later) None fetch_init =
        fetch_loop q sf limit (Response p # later) tok' st'"
    and st': "files st' = acc" "fcount st' = int (length acc)" "length (requests st') = length pre"
    by (auto simp: fetch_init_def acc_def)
  define st0 where "st0 = st'\<lparr>requests := requests st' @ [list_request q tok']\<rparr>"
  obtain flag st1 where sc: "scan_page sf limit (page_records (Response p)) st0 = (flag, st1)"
    by (cases "scan_page sf limit (page_records (Response p)) st0") auto
  have d: "nat (max 1 (limit - fcount st0)) = nat limit - length acc"
    using lt st' by (simp add: st0_def max_def nat_diff_distrib')
  from scan_page_char[OF sc, unfolded d] lt ge st'
  have st1: "flag" "files st1 = acc @ take (nat limit - length acc) accp"
    "length (requests st1) = length pre + 1"
    by (auto simp: st0_def accp_def)
  from sc st1(1) have "fetch_loop q sf limit (Response p # later) tok' st' = Some (st1, later)"
    by (simp add: Let_def st0_def page_records_def)
  with run st1 lt show "\<exists>r. fetch_files (pre @ Response p # later) q sf limit = Some (r, later) \<and>
                 files r = take (nat limit) (accepted sf (all_records (pre @ [Response p]))) \<and>
                 length (requests r) = length pre + 1"
    by (simp add: fetch_files_def all_records_append accepted_append acc_def accp_def all_records_def)
qed

text \<open>A run with limit 2 over a page of one record and a page of two.\<close>

theorem fetch_files_limit_witness:
  "(1::int) \<le> 2 \<and>
   list_all continues [example_page [example_file ''a'' ''x'' None] (Some ''t1'')] \<and>
   returned (fetch_files
     ([example_page [example_file ''a'' ''x'' None] (Some ''t1'')] @
      Response \<lparr>page_files = Some [example_file ''b'' ''y'' None, example_file ''c'' ''z'' None],
                nextPageToken = Some ''t2''\<rparr> # [HttpError ''late''])
     ''q'' None 2) = Some [example_file ''a'' ''x'' None, example_file ''b'' ''y'' None]"
proof -
  have h: "(1::int) \<le> 2" by simp
  show ?thesis
    using fetch_files_limit[OF h, of "[]" "''q''" None
        "[example_page [example_file ''a'' ''x'' None] (Some ''t1'')]"
        "\<lparr>page_files = Some [example_file ''b'' ''y'' None, example_file ''c'' ''z'' None],
                nextPageToken = Some ''t2''\<rparr>" "[HttpError ''late'']"]
    by (simp add: fetch_eval example_defs continues_def)
qed

text \<open>
  With limit 0 the test \<^verbatim>\<open>count >= limit\<close> is first made after a record has been
  appended, so one record is returned. With a negative limit no result is short enough: the
  empty result of an empty listing has more than -1 records.
\<close>

theorem fetch_files_limit_counterexample:
  "returned (fetch_files [example_page [example_file ''a'' ''x'' None] None] ''q'' None 0)
     = Some [example_file ''a'' ''x'' None] \<and>
   \<not> int (length [example_file ''a'' ''x'' None]) \<le> 0 \<and>
   returned (fetch_files [example_page [] None] ''q'' None (- 1)) = Some [] \<and>
   \<not> int (length ([] :: file_rec list)) \<le> - 1"
  by (simp add: fetch_eval example_defs)

subsection \<open>The size filter\<close>

lemma scan_page_accepted:
  "scan_page sf limit (accepted sf fs) st = scan_page sf limit fs st"
  by (induction fs arbitrary: st) (simp_all add: accepted_def Let_def)

lemma fetch_loop_without_excluded:
  "map_option fst (fetch_loop q sf limit (map (without_excluded sf) rs) tok st) =
   map_option fst (fetch_loop q sf limit rs tok st)"
proof (induction rs arbitrary: tok st)
  case Nil
  show ?case by simp
next
  case (Cons resp rs)
  show ?case
  proof (cases resp)
    case (HttpError e)
    then show ?thesis by (simp add: without_excluded_def Let_def)
  next
    case (Response p)
    have "(case map_option (accepted sf) (page_files p) of None \<Rightarrow> [] | Some fs \<Rightarrow> fs) =
        accepted sf (case page_files p of None \<Rightarrow> [] | Some fs \<Rightarrow> fs)"
      by (simp add: accepted_def split: option.splits)
    with Response Cons.IH show ?thesis
      by (simp add: without_excluded_def Let_def scan_page_accepted split: prod.splits bool.splits)
  qed
qed

lemma accepted_nonzero:
  "t \<noteq> 0 \<Longrightarrow> accepted (Some t) fs = filter (\<lambda>f. t < size_or_0 f) fs"
  by (simp add: accepted_def size_excluded_def size_or_0_def not_le)

text \<open>
  Claim C4, for a threshold other than zero. Every record that \<^verbatim>\<open>fetch_files\<close>
  returns has a size above the threshold, an absent size read as 0. The result is an initial
  part of the records above the threshold, in the order of the pages, so no record at or below
  the threshold is in it. The count is the length of the result, and the run is the same run
  (result, count, log lines and requests) when the pages come without the records at or below
  the threshold: they are not counted.
\<close>

theorem fetch_files_size_filter:
  assumes "t \<noteq> 0" and "fetch_files service q (Some t) limit = Some (r, rest)"
  shows "(\<forall>f \<in> set (files r). t < size_or_0 f) \<and>
         (\<exists>n. files r = take n (filter (\<lambda>f. t < size_or_0 f) (all_records service))) \<and>
         fcount r = int (length (files r)) \<and>
         map_option fst (fetch_files (map (without_excluded (Some t)) service) q (Some t) limit)
           = Some r"
proof -
  from assms(2) have run: "fetch_loop q (Some t) limit service None fetch_init = Some (r, rest)"
    by (simp add: fetch_files_def)
  from fetch_loop_prefix[OF run] obtain n where
    n: "files r = take n (accepted (Some t) (all_records service))"
    and c: "fcount r = int (length (files r))"
    by (auto simp: fetch_init_def)
  from n assms(1) have p: "files r = take n (filter (\<lambda>f. t < size_or_0 f) (all_records service))"
    by (simp add: accepted_nonzero)
  then have "\<forall>f \<in> set (files r). t < size_or_0 f"
    by (auto dest: in_set_takeD)
  moreover have "map_option fst (fetch_files (map (without_excluded (Some t)) service) q (Some t) limit)
           = Some r"
    using fetch_loop_without_excluded[of q "Some t" limit service None fetch_init] run
    by (simp add: fetch_files_def)
  ultimately show ?thesis using p c by blast
qed

text \<open>
  A page of five records against the threshold 10: sizes 5, 20, absent, 10 and 11.
\<close>

theorem fetch_files_size_filter_witness:
  "(10::int) \<noteq> 0 \<and>
   returned (fetch_files
      [example_page [example_file ''a'' ''x'' (Some 5), example_file ''b'' ''y'' (Some 20),
                     example_file ''c'' ''z'' None, example_file ''d'' ''w'' (Some 10),
                     example_file ''e'' ''v'' (Some 11)] None] ''q'' (Some 10) 1000)
     = Some [example_file ''b'' ''y'' (Some 20), example_file ''e'' ''v'' (Some 11)] \<and>
   10 < size_or_0 (example_file ''b'' ''y'' (Some 20)) \<and>
   10 < size_or_0 (example_file ''e'' ''v'' (Some 11))"
proof -
  have h: "(10::int) \<noteq> 0" by simp
  define r where "r = \<lparr>files = [example_file ''b'' ''y'' (Some 20), example_file ''e'' ''v'' (Some 11)],
     fcount = 2, logged = [LogInfo ''Total files fetched: 2''],
     requests = [list_request ''q'' None]\<rparr>"
  have run: "fetch_files
      [example_page [example_file ''a'' ''x'' (Some 5), example_file ''b'' ''y'' (Some 20),
                     example_file ''c'' ''z'' None, example_file ''d'' ''w'' (Some 10),
                     example_file ''e'' ''v'' (Some 11)] None] ''q'' (Some 10) 1000
      = Some (r, [])"
    by (simp add: fetch_eval example_defs r_def show_nat.simps)
  from fetch_files_size_filter[OF h run] run show ?thesis
    by (simp add: returned_def r_def)
qed

text \<open>
  With the threshold 0 the test \<^verbatim>\<open>size_filter and ...\<close> is false at once, and a
  record of size 0 is returned.
\<close>

theorem fetch_files_size_filter_counterexample:
  "returned (fetch_files [example_page [example_file ''a'' ''x'' (Some 0)] None] ''q'' (Some 0) 1000)
     = Some [example_file ''a'' ''x'' (Some 0)] \<and>
   size_or_0 (example_file ''a'' ''x'' (Some 0)) \<le> 0"
  by (simp add: fetch_eval example_defs size_or_0_def)

subsection \<open>A request that fails\<close>

text \<open>
  Claim C5. The pages \<open>pre\<close> each name a next page and hold fewer accepted records
  than the limit (or none), so the loop asks for the page after them; that request raises
  \<^verbatim>\<open>HttpError\<close>. The call then returns normally with the accepted records of \<open>pre\<close>,
  the failed request is the last one it sends, and the error is logged. When the first
  request fails the result is the empty list.
\<close>

theorem fetch_files_request_fails:
  assumes "list_all continues pre"
    and "int (length (accepted sf (all_records pre))) < max 1 limit"
  shows "(\<exists>r. fetch_files (pre @ HttpError e # later) q sf limit = Some (r, later) \<and>
              files r = accepted sf (all_records pre) \<and>
              length (requests r) = length pre + 1 \<and>
              LogError (''An error occurred while fetching files: '' @ e) \<in> set (logged r)) \<and>
         returned (fetch_files (HttpError e # later) q sf limit) = Some []"
proof
  from assms(2) have "int (length (accepted sf (all_records pre))) < max 1 (limit - fcount fetch_init)"
    by (simp add: fetch_init_def)
  from fetch_loop_run[OF assms(1) this, of q "HttpError e # later" None]
  obtain st' tok' where run: "fetch_loop q sf limit (pre @ HttpError e # later) None fetch_init =
        fetch_loop q sf limit (HttpError e # later) tok' st'"
    and st': "files st' = accepted sf (all_records pre)" "length (requests st') = length pre"
    by (auto simp: fetch_init_def)
  show "\<exists>r. fetch_files (pre @ HttpError e # later) q sf limit = Some (r, later) \<and>
              files r = accepted sf (all_records pre) \<and>
              length (requests r) = length pre + 1 \<and>
              LogError (''An error occurred while fetching files: '' @ e) \<in> set (logged r)"
    using run st' by (simp add: fetch_files_def Let_def fetch_end_def)
next
  show "returned (fetch_files (HttpError e # later) q sf limit) = Some []"
    by (simp add: fetch_files_def returned_def fetch_init_def Let_def)
qed

text \<open>
  One page of one record, then an error; and an error at the first request.
\<close>

theorem fetch_files_request_fails_witness:
  "list_all continues [example_page [example_file ''a'' ''x'' None] (Some ''t1'')] \<and>
   (1::int) < max 1 1000 \<and>
   returned (fetch_files ([example_page [example_file ''a'' ''x'' None] (Some ''t1'')] @
       HttpError ''503'' # []) ''q'' None 1000) = Some [example_file ''a'' ''x'' None] \<and>
   returned (fetch_files (HttpError ''503'' # []) ''q'' None 1000) = Some []"
proof -
  have h1: "list_all continues [example_page [example_file ''a'' ''x'' None] (Some ''t1'')]"
    by (simp add: continues_def example_defs no_token_def)
  have h2: "int (length (accepted None
      (all_records [example_page [example_file ''a'' ''x'' None] (Some ''t1'')]))) < max 1 1000"
    by (simp add: accepted_def all_records_def page_records_def example_defs size_excluded_def)
  from fetch_files_request_fails[OF h1 h2, of "''503''" "[]" "''q''"] h1 show ?thesis
    by (auto simp: returned_def accepted_def all_records_def page_records_def example_defs
          size_excluded_def)
qed

subsection \<open>The threshold zero\<close>

text \<open>
  Claim C9. In both scripts a call with \<^verbatim>\<open>size_filter=0\<close> is the same run as a call
  with \<^verbatim>\<open>size_filter=None\<close>, and the size test accepts every record.
\<close>

theorem fetch_files_zero_filter:
  "fetch_files service q (Some 0) limit = fetch_files service q None limit \<and>
   fm2_fetch_files service q (Some 0) limit = fm2_fetch_files service q None limit \<and>
   accepted (Some 0) fs = fs"
  by (simp add: fetch_files_def fm2_fetch_files_def fetch_loop_zero fm2_fetch_loop_zero
        accepted_def size_excluded_def)

text \<open>
  Records of size 0, of no size and of size -1 all come back under the threshold 0.
\<close>

theorem fetch_files_zero_filter_witness:
  "returned (fetch_files [example_page [example_file ''a'' ''x'' (Some 0),
        example_file ''b'' ''y'' None, example_file ''c'' ''z'' (Some (-1))] None] ''q'' (Some 0) 1000)
   = Some [example_file ''a'' ''x'' (Some 0), example_file ''b'' ''y'' None,
        example_file ''c'' ''z'' (Some (-1))]"
proof -
  have "returned (fetch_files [example_page [example_file ''a'' ''x'' (Some 0),
        example_file ''b'' ''y'' None, example_file ''c'' ''z'' (Some (-1))] None] ''q'' None 1000)
   = Some [example_file ''a'' ''x'' (Some 0), example_file ''b'' ''y'' None,
        example_file ''c'' ''z'' (Some (-1))]"
    by (simp add: fetch_eval example_defs)
  with fetch_files_zero_filter[of "[example_page [example_file ''a'' ''x'' (Some 0),
        example_file ''b'' ''y'' None, example_file ''c'' ''z'' (Some (-1))] None]" "''q''" 1000 "[]"]
  show ?thesis by simp
qed

subsection \<open>The two scripts\<close>

text \<open>
  Claim C10. On the same responses, with the same query, size filter and limit, the
  \<^verbatim>\<open>fetch_files\<close> of \<^verbatim>\<open>filemail.py\<close> and the one of \<^verbatim>\<open>fm2.py\<close> return the same
  records, leave the same responses unasked and send the same page tokens. (They differ in
  the \<^verbatim>\<open>fields\<close> of the requests and in what they log.)
\<close>

theorem fetch_files_versions_agree:
  "returned (fetch_files service q sf limit) = returned (fm2_fetch_files service q sf limit) \<and>
   map_option snd (fetch_files service q sf limit) =
     map_option snd (fm2_fetch_files service q sf limit) \<and>
   map_option (map req_pageToken \<circ> requests \<circ> fst) (fetch_files service q sf limit) =
     map_option (map req_pageToken \<circ> requests \<circ> fst) (fm2_fetch_files service q sf limit)"
proof -
  have "map_option (\<lambda>(r, rest). (files r, fcount r, map req_pageToken (requests r), rest))
      (fetch_files service q sf limit) =
   map_option (\<lambda>(r, rest). (files r, fcount r, map req_pageToken (requests r), rest))
      (fm2_fetch_files service q sf limit)"
    unfolding fetch_files_def fm2_fetch_files_def
    by (rule fetch_loops_agree) simp_all
  then show ?thesis
    by (cases "fetch_files service q sf limit"; cases "fm2_fetch_files service q sf limit")
       (auto simp: returned_def)
qed

text \<open>Both scripts on two pages with the limit 2.\<close>

theorem fetch_files_versions_agree_witness:
  "returned (fm2_fetch_files
     [example_page [example_file ''a'' ''x'' None] (Some ''t1''),
      example_page [example_file ''b'' ''y'' None, example_file ''c'' ''z'' None] None]
     ''q'' None 2) = Some [example_file ''a'' ''x'' None, example_file ''b'' ''y'' None]"
proof -
  have "returned (fetch_files
     [example_page [example_file ''a'' ''x'' None] (Some ''t1''),
      example_page [example_file ''b'' ''y'' None, example_file ''c'' ''z'' None] None]
     ''q'' None 2) = Some [example_file ''a'' ''x'' None, example_file ''b'' ''y'' None]"
    by (simp add: fetch_eval example_defs)
  with fetch_files_versions_agree[of
     "[example_page [example_file ''a'' ''x'' None] (Some ''t1''),
      example_page [example_file ''b'' ''y'' None, example_file ''c'' ''z'' None] None]"
     "''q''" None 2]
  show ?thesis by simp
qed

section \<open>Properties of the grouper\<close>

lemma map_fst_setdefault_append:
  "map fst (setdefault_append k f g) =
     (if k \<in> fst ` set g then map fst g else map fst g @ [k])"
proof (induction g)
  case Nil
  show ?case by simp
next
  case (Cons e g)
  obtain k' fs where e: "e = (k', fs)" by (cases e)
  show ?case
  proof (cases "k' = k")
    case True
    with e show ?thesis by simp
  next
    case False
    with e Cons.IH show ?thesis by (simp add: image_iff)
  qed
qed

lemma distinct_setdefault_append:
  "distinct (map fst g) \<Longrightarrow> distinct (map fst (setdefault_append k f g))"
  by (simp add: map_fst_setdefault_append)

lemma map_of_setdefault_append:
  "map_of (setdefault_append k f g) =
     (map_of g)(k \<mapsto> (case map_of g k of None \<Rightarrow> [f] | Some fs \<Rightarrow> fs @ [f]))"
  by (induction g) (auto simp: fun_eq_iff)

lemma mset_setdefault_append:
  "mset (concat (map snd (setdefault_append k f g))) = mset (concat (map snd g)) + {#f#}"
  by (induction g) auto

lemma members_of_snoc:
  "members_of k (seen @ [f]) = members_of k seen @ (if file_key f = Inr k then [f] else [])"
  by (simp add: members_of_def)

lemma grouped_step:
  assumes "grouped g seen" and "file_key f = Inr k"
  shows "grouped (setdefault_append k f g) (seen @ [f])"
  using assms
  by (auto simp: grouped_def distinct_setdefault_append map_of_setdefault_append members_of_snoc)

lemma group_loop_grouped:
  "\<forall>f \<in> set fs. file_size f \<noteq> None \<Longrightarrow> grouped g seen \<Longrightarrow>
   \<exists>g'. group_loop fs g = Inr g' \<and> grouped g' (seen @ fs)"
proof (induction fs arbitrary: g seen)
  case Nil
  then show ?case by simp
next
  case (Cons f fs)
  from Cons.prems(1) obtain s where s: "file_size f = Some s" by auto
  then have k: "file_key f = Inr (file_name f, s)" by (simp add: file_key_def)
  from grouped_step[OF Cons.prems(2) k]
  have "grouped (setdefault_append (file_name f, s) f g) (seen @ [f])" .
  from Cons.IH[OF _ this] Cons.prems(1) k show ?case by simp
qed

lemma group_loop_mset:
  "group_loop fs g = Inr g' \<Longrightarrow>
   mset (concat (map snd g')) = mset (concat (map snd g)) + mset fs"
proof (induction fs arbitrary: g)
  case Nil
  then show ?case by simp
next
  case (Cons f fs)
  then show ?case
    by (auto simp: mset_setdefault_append split: sum.splits)
qed

lemma group_loop_KeyError:
  "\<exists>f \<in> set fs. file_size f = None \<Longrightarrow> group_loop fs g = Inl (KeyError ''size'')"
proof (induction fs arbitrary: g)
  case Nil
  then show ?case by simp
next
  case (Cons f fs)
  show ?case
  proof (cases "file_size f")
    case None
    then show ?thesis by (simp add: file_key_def)
  next
    case (Some s)
    with Cons.prems have "\<exists>f \<in> set fs. file_size f = None" by auto
    from Cons.IH[OF this] Some show ?thesis by (simp add: file_key_def)
  qed
qed

lemma grouped_entries:
  assumes "grouped g seen"
  shows "(k, fs) \<in> set g \<longleftrightarrow> fs \<noteq> [] \<and> fs = members_of k seen"
proof -
  from assms have d: "distinct (map fst g)"
    and m: "map_of g k = (if members_of k seen = [] then None else Some (members_of k seen))"
    unfolding grouped_def by blast+
  from d have "(k, fs) \<in> set g \<longleftrightarrow> map_of g k = Some fs" by simp
  also have "\<dots> \<longleftrightarrow> fs \<noteq> [] \<and> fs = members_of k seen"
    unfolding m by (cases "members_of k seen = []") auto
  finally show ?thesis .
qed

lemma process_duplicate_files_grouped:
  "\<forall>f \<in> set fs. file_size f \<noteq> None \<Longrightarrow>
   \<exists>g. process_duplicate_files fs = Inr g \<and> grouped g fs"
  using group_loop_grouped[of fs "[]" "[]"]
  by (simp add: process_duplicate_files_def grouped_def members_of_def)

lemmas group_eval = process_duplicate_files_def file_key_def duplicate_files_def example_file_def
  members_of_def

subsection \<open>The groups are a partition\<close>

text \<open>
  Claim C6. On records that all carry a size, \<^verbatim>\<open>process_duplicate_files\<close> returns a
  dictionary whose keys are distinct. Each group is not empty and holds the input records of
  its key in the order of the input; each input record is in exactly one group; the groups
  together are the input as a multiset. The selection of \<^verbatim>\<open>main\<close> keeps exactly the
  groups of the keys that more than one input record has.
\<close>

theorem process_duplicate_files_partition:
  assumes "\<forall>f \<in> set fs. file_size f \<noteq> None"
  shows "\<exists>g. process_duplicate_files fs = Inr g \<and>
     distinct (map fst g) \<and>
     (\<forall>(k, ms) \<in> set g. ms \<noteq> [] \<and> ms = members_of k fs) \<and>
     (\<forall>f \<in> set fs. \<exists>!i. i < length g \<and> f \<in> set (snd (g ! i))) \<and>
     mset (concat (map snd g)) = mset fs \<and>
     (\<forall>ms. ms \<in> set (duplicate_files g) \<longleftrightarrow>
        (\<exists>k. ms = members_of k fs \<and> 1 < length (members_of k fs)))"
proof -
  from process_duplicate_files_grouped[OF assms] obtain g where
    g: "process_duplicate_files fs = Inr g" and gr: "grouped g fs" by blast
  note entries = grouped_entries[OF gr]
  from gr have d: "distinct (map fst g)" by (simp add: grouped_def)
  have members: "\<forall>(k, ms) \<in> set g. ms \<noteq> [] \<and> ms = members_of k fs"
    using entries by auto
  have once: "\<exists>!i. i < length g \<and> f \<in> set (snd (g ! i))" if f: "f \<in> set fs" for f
  proof -
    from assms f obtain s where "file_size f = Some s" by auto
    then have key: "file_key f = Inr (file_name f, s)" by (simp add: file_key_def)
    define k where "k = (file_name f, s)"
    from key f have fk: "f \<in> set (members_of k fs)" by (simp add: members_of_def k_def)
    then have "(k, members_of k fs) \<in> set g" using entries[of k "members_of k fs"] by auto
    then obtain i where i: "i < length g" "g ! i = (k, members_of k fs)"
      by (auto simp: in_set_conv_nth)
    show ?thesis
    proof (rule ex1I[of _ i])
      show "i < length g \<and> f \<in> set (snd (g ! i))" using i fk by simp
    next
      fix j assume j: "j < length g \<and> f \<in> set (snd (g ! j))"
      obtain k' ms where gj: "g ! j = (k', ms)" by (cases "g ! j")
      with j have "(k', ms) \<in> set g" by (metis nth_mem)
      with entries have "ms = members_of k' fs" by simp
      with j gj have "file_key f = Inr k'" by (simp add: members_of_def)
      with key have "k' = k" by (simp add: k_def)
      with gj i have "map fst g ! j = map fst g ! i" using j by simp
      with d i j show "j = i" using nth_eq_iff_index_eq[of "map fst g" j i] by simp
    qed
  qed
  have ms: "mset (concat (map snd g)) = mset fs"
    using group_loop_mset[of fs "[]" g] g by (simp add: process_duplicate_files_def)
  have dup: "ms \<in> set (duplicate_files g) \<longleftrightarrow>
        (\<exists>k. ms = members_of k fs \<and> 1 < length (members_of k fs))" for ms
  proof
    assume "ms \<in> set (duplicate_files g)"
    then obtain k where k: "(k, ms) \<in> set g" "1 < length ms"
      by (auto simp: duplicate_files_def)
    from k(1) have "ms = members_of k fs" using entries[of k ms] by simp
    with k(2) show "\<exists>k. ms = members_of k fs \<and> 1 < length (members_of k fs)" by blast
  next
    assume "\<exists>k. ms = members_of k fs \<and> 1 < length (members_of k fs)"
    then obtain k where k: "ms = members_of k fs" "1 < length ms" by auto
    then have "ms \<noteq> []" by auto
    with k entries[of k ms] have "(k, ms) \<in> set g" by simp
    with k show "ms \<in> set (duplicate_files g)"
      by (force simp: duplicate_files_def)
  qed
  show ?thesis
  proof (intro exI[of _ g] conjI)
    show "process_duplicate_files fs = Inr g" by (rule g)
    show "distinct (map fst g)" by (rule d)
    show "\<forall>(k, ms) \<in> set g. ms \<noteq> [] \<and> ms = members_of k fs" by (rule members)
    show "\<forall>f \<in> set fs. \<exists>!i. i < length g \<and> f \<in> set (snd (g ! i))"
      using once by (rule ballI)
    show "mset (concat (map snd g)) = mset fs" by (rule ms)
    show "\<forall>ms. ms \<in> set (duplicate_files g) \<longleftrightarrow>
        (\<exists>k. ms = members_of k fs \<and> 1 < length (members_of k fs))"
      using dup by (rule allI)
  qed
qed

text \<open>
  Two records \<^verbatim>\<open>Report.docx\<close> of size 5000, two \<^verbatim>\<open>Notes.txt\<close> of size 300 and one
  record of its own: three groups, of which the selection keeps two.
\<close>

theorem process_duplicate_files_partition_witness:
  "process_duplicate_files
     [example_file ''1'' ''Report.docx'' (Some 5000), example_file ''2'' ''Notes.txt'' (Some 300),
      example_file ''3'' ''Other.txt'' (Some 300), example_file ''4'' ''Report.docx'' (Some 5000),
      example_file ''5'' ''Notes.txt'' (Some 300)] =
   Inr [((''Report.docx'', 5000),
           [example_file ''1'' ''Report.docx'' (Some 5000),
            example_file ''4'' ''Report.docx'' (Some 5000)]),
        ((''Notes.txt'', 300),
           [example_file ''2'' ''Notes.txt'' (Some 300), example_file ''5'' ''Notes.txt'' (Some 300)]),
        ((''Other.txt'', 300), [example_file ''3'' ''Other.txt'' (Some 300)])] \<and>
   duplicate_files
       [((''Report.docx'', 5000),
           [example_file ''1'' ''Report.docx'' (Some 5000),
            example_file ''4'' ''Report.docx'' (Some 5000)]),
        ((''Notes.txt'', 300),
           [example_file ''2'' ''Notes.txt'' (Some 300), example_file ''5'' ''Notes.txt'' (Some 300)]),
        ((''Other.txt'', 300), [example_file ''3'' ''Other.txt'' (Some 300)])] =
     [[example_file ''1'' ''Report.docx'' (Some 5000), example_file ''4'' ''Report.docx'' (Some 5000)],
      [example_file ''2'' ''Notes.txt'' (Some 300), example_file ''5'' ''Notes.txt'' (Some 300)]]"
proof -
  have h: "\<forall>f \<in> set [example_file ''1'' ''Report.docx'' (Some 5000),
      example_file ''2'' ''Notes.txt'' (Some 300),
      example_file ''3'' ''Other.txt'' (Some 300), example_file ''4'' ''Report.docx'' (Some 5000),
      example_file ''5'' ''Notes.txt'' (Some 300)]. file_size f \<noteq> None"
    by (simp add: example_file_def)
  have run: ?thesis
    by (simp add: group_eval)
  show ?thesis
    using process_duplicate_files_partition[OF h] by - (rule run)
qed

subsection \<open>The key of a group\<close>

text \<open>
  Claim C1, as the code has it. \<^verbatim>\<open>process_duplicate_files\<close> reads \<^verbatim>\<open>file['size']\<close>
  and gives an absent size no default: a sequence with a record without a size raises
  \<^verbatim>\<open>KeyError\<close>. On records that all carry a size it returns normally; every member of a
  group has the name and the size of the group's key, two records of the same name and size
  are in the same group, and a group is among the duplicates exactly when it has more than
  one member.
\<close>

theorem process_duplicate_files_key:
  "((\<exists>f \<in> set fs. file_size f = None) \<longrightarrow>
      process_duplicate_files fs = Inl (KeyError ''size'')) \<and>
   ((\<forall>f \<in> set fs. file_size f \<noteq> None) \<longrightarrow>
      (\<exists>g. process_duplicate_files fs = Inr g \<and>
         (\<forall>(k, ms) \<in> set g. \<forall>f \<in> set ms. file_name f = fst k \<and> file_size f = Some (snd k)) \<and>
         (\<forall>f1 \<in> set fs. \<forall>f2 \<in> set fs.
             file_name f1 = file_name f2 \<and> file_size f1 = file_size f2 \<longrightarrow>
             (\<exists>k ms. (k, ms) \<in> set g \<and> f1 \<in> set ms \<and> f2 \<in> set ms)) \<and>
         (\<forall>(k, ms) \<in> set g. ms \<in> set (duplicate_files g) \<longleftrightarrow> 1 < length ms)))"
proof (intro conjI impI)
  assume "\<exists>f \<in> set fs. file_size f = None"
  then show "process_duplicate_files fs = Inl (KeyError ''size'')"
    by (simp add: process_duplicate_files_def group_loop_KeyError)
next
  assume sizes: "\<forall>f \<in> set fs. file_size f \<noteq> None"
  from process_duplicate_files_grouped[OF sizes] obtain g where
    g: "process_duplicate_files fs = Inr g" and gr: "grouped g fs" by blast
  note entries = grouped_entries[OF gr]
  have keyed: "\<forall>(k, ms) \<in> set g. \<forall>f \<in> set ms. file_name f = fst k \<and> file_size f = Some (snd k)"
  proof (clarify, rule conjI)
    fix a b ms f assume "((a, b), ms) \<in> set g" "f \<in> set ms"
    with entries have "file_key f = Inr (a, b)" by (simp add: members_of_def)
    then show "file_name f = fst (a, b)" "file_size f = Some (snd (a, b))"
      by (auto simp: file_key_def split: option.splits)
  qed
  have same: "\<forall>f1 \<in> set fs. \<forall>f2 \<in> set fs.
             file_name f1 = file_name f2 \<and> file_size f1 = file_size f2 \<longrightarrow>
             (\<exists>k ms. (k, ms) \<in> set g \<and> f1 \<in> set ms \<and> f2 \<in> set ms)"
  proof (intro ballI impI)
    fix f1 f2 assume f: "f1 \<in> set fs" "f2 \<in> set fs"
      and eq: "file_name f1 = file_name f2 \<and> file_size f1 = file_size f2"
    from sizes f obtain s where "file_size f1 = Some s" by auto
    moreover from this eq have "file_size f2 = Some s" by simp
    ultimately have k: "file_key f1 = Inr (file_name f1, s)" "file_key f2 = Inr (file_name f1, s)"
      using eq by (simp_all add: file_key_def)
    define k where "k = (file_name f1, s)"
    from k f have m: "f1 \<in> set (members_of k fs)" "f2 \<in> set (members_of k fs)"
      by (simp_all add: members_of_def k_def)
    then have "(k, members_of k fs) \<in> set g" using entries[of k "members_of k fs"] by auto
    with m show "\<exists>k ms. (k, ms) \<in> set g \<and> f1 \<in> set ms \<and> f2 \<in> set ms" by blast
  qed
  have dup: "\<forall>(k, ms) \<in> set g. ms \<in> set (duplicate_files g) \<longleftrightarrow> 1 < length ms"
    by (force simp: duplicate_files_def)
  from g keyed same dup
  show "\<exists>g. process_duplicate_files fs = Inr g \<and>
         (\<forall>(k, ms) \<in> set g. \<forall>f \<in> set ms. file_name f = fst k \<and> file_size f = Some (snd k)) \<and>
         (\<forall>f1 \<in> set fs. \<forall>f2 \<in> set fs.
             file_name f1 = file_name f2 \<and> file_size f1 = file_size f2 \<longrightarrow>
             (\<exists>k ms. (k, ms) \<in> set g \<and> f1 \<in> set ms \<and> f2 \<in> set ms)) \<and>
         (\<forall>(k, ms) \<in> set g. ms \<in> set (duplicate_files g) \<longleftrightarrow> 1 < length ms)"
    by blast
qed

text \<open>
  Two records \<^verbatim>\<open>x\<close> of size 7 form one group of duplicates; a record without a size raises.
\<close>

theorem process_duplicate_files_key_witness:
  "process_duplicate_files [example_file ''a'' ''x'' (Some 7), example_file ''b'' ''x'' (Some 7)] =
     Inr [((''x'', 7), [example_file ''a'' ''x'' (Some 7), example_file ''b'' ''x'' (Some 7)])] \<and>
   duplicate_files [((''x'', 7), [example_file ''a'' ''x'' (Some 7), example_file ''b'' ''x'' (Some 7)])] =
     [[example_file ''a'' ''x'' (Some 7), example_file ''b'' ''x'' (Some 7)]] \<and>
   process_duplicate_files [example_file ''a'' ''x'' (Some 7), example_file ''c'' ''y'' None] =
     Inl (KeyError ''size'')"
proof -
  have h: "\<forall>f \<in> set [example_file ''a'' ''x'' (Some 7), example_file ''b'' ''x'' (Some 7)].
      file_size f \<noteq> None"
    by (simp add: example_file_def)
  have h': "\<exists>f \<in> set [example_file ''a'' ''x'' (Some 7), example_file ''c'' ''y'' None].
      file_size f = None"
    by (simp add: example_file_def)
  have run: ?thesis
    by (simp add: group_eval)
  note inst = process_duplicate_files_key[of
      "[example_file ''a'' ''x'' (Some 7), example_file ''b'' ''x'' (Some 7)]"]
    process_duplicate_files_key[of
      "[example_file ''a'' ''x'' (Some 7), example_file ''c'' ''y'' None]"]
  show ?thesis
    using inst(1)[THEN conjunct2, THEN mp, OF h] inst(2)[THEN conjunct1, THEN mp, OF h']
    by - (rule run)
qed

text \<open>
  Two records of the same name that both lack a size: the claim puts them in one group,
  the code raises \<^verbatim>\<open>KeyError\<close> at the first.
\<close>

theorem process_duplicate_files_key_counterexample:
  "process_duplicate_files [example_file ''a'' ''x'' None, example_file ''b'' ''x'' None] =
     Inl (KeyError ''size'')"
  by (simp add: group_eval)

section \<open>Properties of the report\<close>

lemma join_items_Inr:
  "\<forall>x \<in> set xs. \<exists>s. f x = Inr s \<Longrightarrow> \<exists>s. join_items f xs = Inr s"
proof (induction xs)
  case Nil
  show ?case by simp
next
  case (Cons x xs)
  then obtain s t where "f x = Inr s" "join_items f xs = Inr t" by auto
  then show ?case by simp
qed

lemma join_items_contains:
  "join_items f xs = Inr s \<Longrightarrow> x \<in> set xs \<Longrightarrow> \<exists>t a b. f x = Inr t \<and> s = a @ t @ b"
proof (induction xs arbitrary: s)
  case Nil
  then show ?case by simp
next
  case (Cons y ys)
  from Cons.prems(1) obtain u v where y: "f y = Inr u" and ys: "join_items f ys = Inr v"
    and s: "s = u @ v"
    by (auto split: sum.splits)
  show ?case
  proof (cases "x = y")
    case True
    with y s have "f x = Inr u \<and> s = [] @ u @ v" by simp
    then show ?thesis by blast
  next
    case False
    with Cons.prems(2) have "x \<in> set ys" by simp
    from Cons.IH[OF ys this] obtain t a b where "f x = Inr t" "v = a @ t @ b" by blast
    with s have "f x = Inr t \<and> s = (u @ a) @ t @ b" by simp
    then show ?thesis by blast
  qed
qed

lemma join_items_Inl:
  "\<exists>x \<in> set xs. f x = Inl e \<Longrightarrow> \<forall>x \<in> set xs. \<forall>e'. f x = Inl e' \<longrightarrow> e' = e \<Longrightarrow>
   join_items f xs = Inl e"
proof (induction xs)
  case Nil
  then show ?case by simp
next
  case (Cons x xs)
  show ?case
  proof (cases "f x")
    case (Inl e')
    with Cons.prems(2) show ?thesis by simp
  next
    case (Inr s)
    with Cons.prems have "\<exists>x \<in> set xs. f x = Inl e"
      "\<forall>x \<in> set xs. \<forall>e'. f x = Inl e' \<longrightarrow> e' = e" by auto
    from Cons.IH[OF this] Inr show ?thesis by simp
  qed
qed

lemma large_items_Inr:
  "\<forall>f \<in> set fs. file_size f \<noteq> None \<Longrightarrow> \<exists>s. join_items large_item fs = Inr s"
  by (rule join_items_Inr) (auto simp: large_item_def)

lemma large_items_KeyError:
  "\<exists>f \<in> set fs. file_size f = None \<Longrightarrow> join_items large_item fs = Inl (KeyError ''size'')"
  by (rule join_items_Inl) (auto simp: large_item_def split: option.splits)

lemma doc_items_Inr: "\<exists>s. join_items doc_item fs = Inr s"
  by (rule join_items_Inr) (simp add: doc_item_def)

lemma fm2_doc_items_Inr:
  "\<forall>f \<in> set fs. webViewLink f \<noteq> None \<Longrightarrow> \<exists>s. join_items fm2_doc_item fs = Inr s"
  by (rule join_items_Inr) (auto simp: fm2_doc_item_def)

lemma fm2_doc_items_KeyError:
  "\<exists>f \<in> set fs. webViewLink f = None \<Longrightarrow>
   join_items fm2_doc_item fs = Inl (KeyError ''webViewLink'')"
  by (rule join_items_Inl) (auto simp: fm2_doc_item_def split: option.splits)

lemma member_item_unknown:
  "parents f = None \<Longrightarrow>
   member_item f = Inr (''<li>ID: '' @ file_id f @ '' (parent folder: unknown)</li>'')"
  by (simp add: member_item_def)

lemma member_item_first_parent:
  "parents f = Some (p # ps) \<Longrightarrow>
   member_item f = Inr (''<li>ID: '' @ file_id f @ '' (parent folder: '' @ p @ '')</li>'')"
  by (simp add: member_item_def)

lemma member_item_empty_parents: "parents f = Some [] \<Longrightarrow> member_item f = Inl IndexError"
  by (simp add: member_item_def)

lemma member_item_Inr: "parents f \<noteq> Some [] \<Longrightarrow> \<exists>s. member_item f = Inr s"
  by (cases "parents f"; cases "the (parents f)") (auto simp: member_item_def)

lemma group_item_Inr:
  "\<forall>f \<in> set (snd item). parents f \<noteq> Some [] \<Longrightarrow> \<exists>s. group_item item = Inr s"
proof -
  assume "\<forall>f \<in> set (snd item). parents f \<noteq> Some []"
  then have "\<forall>f \<in> set (snd item). \<exists>s. member_item f = Inr s"
    by (simp add: member_item_Inr)
  from join_items_Inr[OF this] show ?thesis by (auto simp: group_item_def)
qed

lemma group_item_contains:
  assumes "group_item item = Inr s" "f \<in> set (snd item)"
  shows "\<exists>t a b. member_item f = Inr t \<and> s = a @ t @ b"
proof -
  from assms(1) obtain m where m: "join_items member_item (snd item) = Inr m"
    and s: "s = ''<li>'' @ fst (fst item) @ '' ('' @ show_int (snd (fst item)) @ '' bytes):<ul>'' @
               m @ ''</ul></li>''"
    by (auto simp: group_item_def split: sum.splits)
  from join_items_contains[OF m assms(2)] obtain t a b where
    t: "member_item f = Inr t" "m = a @ t @ b" by blast
  with s have "s = (''<li>'' @ fst (fst item) @ '' ('' @ show_int (snd (fst item)) @ '' bytes):<ul>'' @ a)
        @ t @ (b @ ''</ul></li>'')" by simp
  with t(1) show ?thesis by blast
qed

lemmas report_eval = report_def fm2_report_def large_item_def doc_item_def fm2_doc_item_def
  member_item_def group_item_def report_head_def report_docs_head_def
  report_duplicates_head_def report_tail_def fm2_report_head_def show_int_def show_nat.simps
  example_file_def

subsection \<open>Absent fields\<close>

text \<open>
  Claim C2, as the code has it. The report of \<^verbatim>\<open>filemail.py\<close> is produced when every
  record of the large files carries a size and no member of a duplicate group has an empty
  list of parents; a member without the key \<^verbatim>\<open>parents\<close> then has the line with the parent
  folder \<^verbatim>\<open>unknown\<close> in the document. The report of \<^verbatim>\<open>fm2.py\<close> is produced when every
  record of the large files carries a size and every old document a
  \<^verbatim>\<open>webViewLink\<close>. Neither report has a default for these two keys: a large file
  without a size raises \<^verbatim>\<open>KeyError('size')\<close>, and in \<^verbatim>\<open>fm2.py\<close> an old document without
  a link raises \<^verbatim>\<open>KeyError('webViewLink')\<close>.
\<close>

theorem report_optional_fields:
  "((\<forall>f \<in> set large_files. file_size f \<noteq> None) \<and>
    (\<forall>item \<in> set file_groups. 1 < length (snd item) \<longrightarrow>
        (\<forall>f \<in> set (snd item). parents f \<noteq> Some [])) \<longrightarrow>
      (\<exists>doc. report large_files old_docs file_groups = Inr doc \<and>
         (\<forall>item \<in> set file_groups. 1 < length (snd item) \<longrightarrow>
            (\<forall>f \<in> set (snd item). parents f = None \<longrightarrow>
               (\<exists>a b. doc = a @ ''<li>ID: '' @ file_id f @ '' (parent folder: unknown)</li>'' @ b))))) \<and>
   ((\<exists>f \<in> set large_files. file_size f = None) \<longrightarrow>
      report large_files old_docs file_groups = Inl (KeyError ''size'')) \<and>
   ((\<forall>f \<in> set large_files. file_size f \<noteq> None) \<and>
    (\<forall>f \<in> set old_docs. webViewLink f \<noteq> None) \<longrightarrow>
      (\<exists>doc. fm2_report large_files old_docs = Inr doc)) \<and>
   ((\<exists>f \<in> set large_files. file_size f = None) \<longrightarrow>
      fm2_report large_files old_docs = Inl (KeyError ''size'')) \<and>
   ((\<forall>f \<in> set large_files. file_size f \<noteq> None) \<and>
    (\<exists>f \<in> set old_docs. webViewLink f = None) \<longrightarrow>
      fm2_report large_files old_docs = Inl (KeyError ''webViewLink''))"
proof (intro conjI impI)
  assume h: "(\<forall>f \<in> set large_files. file_size f \<noteq> None) \<and>
    (\<forall>item \<in> set file_groups. 1 < length (snd item) \<longrightarrow>
        (\<forall>f \<in> set (snd item). parents f \<noteq> Some []))"
  define dups where "dups = filter (\<lambda>item. length (snd item) > 1) file_groups"
  from h obtain large where large: "join_items large_item large_files = Inr large"
    using large_items_Inr by blast
  obtain docs where docs: "join_items doc_item old_docs = Inr docs"
    using doc_items_Inr by blast
  from h have "\<forall>item \<in> set dups. \<exists>s. group_item item = Inr s"
    by (auto simp: dups_def intro!: group_item_Inr)
  from join_items_Inr[OF this] obtain duplicates where
    duplicates: "join_items group_item dups = Inr duplicates" by blast
  define doc where "doc = report_head @ large @ report_docs_head @ docs @ report_duplicates_head @
               duplicates @ report_tail"
  have r: "report large_files old_docs file_groups = Inr doc"
    using large docs duplicates by (simp add: report_def dups_def doc_def)
  have u: "\<exists>a b. doc = a @ ''<li>ID: '' @ file_id f @ '' (parent folder: unknown)</li>'' @ b"
    if item: "item \<in> set file_groups" "1 < length (snd item)"
      and f: "f \<in> set (snd item)" "parents f = None" for item f
  proof -
    from item have "item \<in> set dups" by (simp add: dups_def)
    from join_items_contains[OF duplicates this] obtain t a b where
      t: "group_item item = Inr t" "duplicates = a @ t @ b" by blast
    from group_item_contains[OF t(1) f(1)] obtain m c d where
      m: "member_item f = Inr m" "t = c @ m @ d" by blast
    from m(1) f(2) have "m = ''<li>ID: '' @ file_id f @ '' (parent folder: unknown)</li>''"
      by (simp add: member_item_unknown)
    with t(2) m(2) have "doc = (report_head @ large @ report_docs_head @ docs @
        report_duplicates_head @ a @ c) @
        ''<li>ID: '' @ file_id f @ '' (parent folder: unknown)</li>'' @ (d @ b @ report_tail)"
      by (simp add: doc_def)
    then show ?thesis by blast
  qed
  show "\<exists>doc. report large_files old_docs file_groups = Inr doc \<and>
         (\<forall>item \<in> set file_groups. 1 < length (snd item) \<longrightarrow>
            (\<forall>f \<in> set (snd item). parents f = None \<longrightarrow>
               (\<exists>a b. doc = a @ ''<li>ID: '' @ file_id f @ '' (parent folder: unknown)</li>'' @ b)))"
  proof (rule exI[of _ doc], intro conjI ballI impI)
    show "report large_files old_docs file_groups = Inr doc" by (rule r)
  next
    fix item f
    assume "item \<in> set file_groups" "1 < length (snd item)" "f \<in> set (snd item)" "parents f = None"
    then show "\<exists>a b. doc = a @ ''<li>ID: '' @ file_id f @ '' (parent folder: unknown)</li>'' @ b"
      by (rule u)
  qed
next
  assume "\<exists>f \<in> set large_files. file_size f = None"
  then show "report large_files old_docs file_groups = Inl (KeyError ''size'')"
    by (simp add: report_def large_items_KeyError)
next
  assume h: "(\<forall>f \<in> set large_files. file_size f \<noteq> None) \<and>
    (\<forall>f \<in> set old_docs. webViewLink f \<noteq> None)"
  from h obtain large where "join_items large_item large_files = Inr large"
    using large_items_Inr by blast
  moreover from h obtain docs where "join_items fm2_doc_item old_docs = Inr docs"
    using fm2_doc_items_Inr by blast
  ultimately show "\<exists>doc. fm2_report large_files old_docs = Inr doc"
    by (simp add: fm2_report_def)
next
  assume "\<exists>f \<in> set large_files. file_size f = None"
  then show "fm2_report large_files old_docs = Inl (KeyError ''size'')"
    by (simp add: fm2_report_def large_items_KeyError)
next
  assume h: "(\<forall>f \<in> set large_files. file_size f \<noteq> None) \<and>
    (\<exists>f \<in> set old_docs. webViewLink f = None)"
  from h obtain large where "join_items large_item large_files = Inr large"
    using large_items_Inr by blast
  moreover from h have "join_items fm2_doc_item old_docs = Inl (KeyError ''webViewLink'')"
    by (simp add: fm2_doc_items_KeyError)
  ultimately show "fm2_report large_files old_docs = Inl (KeyError ''webViewLink'')"
    by (simp add: fm2_report_def)
qed

text \<open>
  A report with one large file, one old document, and a duplicate group whose first member
  has no parents and whose second has two.
\<close>

theorem report_optional_fields_witness:
  "report [example_file ''a'' ''x'' (Some 12)] [example_file ''b'' ''y'' None]
     [((''n'', 5), [example_file ''c'' ''n'' (Some 5),
                    (example_file ''d'' ''n'' (Some 5))\<lparr>parents := Some [''p1'', ''p2'']\<rparr>])] =
   Inr (report_head @
        ''<li>x (12 bytes, last modified 2020-01-01T00:00:00.000Z)</li>'' @
        report_docs_head @
        ''<li>y (last modified 2020-01-01T00:00:00.000Z)</li>'' @
        report_duplicates_head @
        ''<li>n (5 bytes):<ul><li>ID: c (parent folder: unknown)</li>'' @
        ''<li>ID: d (parent folder: p1)</li></ul></li>'' @
        report_tail)"
proof -
  have h: "(\<forall>f \<in> set [example_file ''a'' ''x'' (Some 12)]. file_size f \<noteq> None) \<and>
    (\<forall>item \<in> set [((''n'', 5::int), [example_file ''c'' ''n'' (Some 5),
                    (example_file ''d'' ''n'' (Some 5))\<lparr>parents := Some [''p1'', ''p2'']\<rparr>])].
        1 < length (snd item) \<longrightarrow> (\<forall>f \<in> set (snd item). parents f \<noteq> Some []))"
    by (simp add: example_file_def)
  have run: ?thesis
    by (simp add: report_eval)
  show ?thesis
    using report_optional_fields[THEN conjunct1, THEN mp, OF h, of "[example_file ''b'' ''y'' None]"]
    by - (rule run)
qed

text \<open>
  A large file without a size in \<^verbatim>\<open>filemail.py\<close>, an old document without a link in
  \<^verbatim>\<open>fm2.py\<close>: the claim promises a document, the code raises.
\<close>

theorem report_optional_fields_counterexample:
  "report [example_file ''a'' ''x'' None] [] [] = Inl (KeyError ''size'') \<and>
   fm2_report [] [example_file ''a'' ''x'' None] = Inl (KeyError ''webViewLink'')"
  by (simp add: report_eval)

section \<open>Properties of the dispatcher and of the run\<close>

lemma send_email_HttpError:
  "gmail_service (report_message message_text recipient) = HttpError error \<Longrightarrow>
   send_email gmail_service message_text recipient st =
     st\<lparr>mail_sent := mail_sent st @ [report_message message_text recipient],
        mail_logged := mail_logged st @
          [LogError (''An error occurred while sending email: '' @ error)]\<rparr>"
  by (simp add: send_email_def report_message_def Let_def)

lemma send_email_Response:
  "gmail_service (report_message message_text recipient) = Response message_id \<Longrightarrow>
   send_email gmail_service message_text recipient st =
     st\<lparr>mail_sent := mail_sent st @ [report_message message_text recipient],
        mail_logged := mail_logged st @ [LogInfo (''Message Id: '' @ message_id)]\<rparr>"
  by (simp add: send_email_def report_message_def Let_def)

lemma fm2_send_email_HttpError:
  "gmail_service (report_message message_text recipient) = HttpError error \<Longrightarrow>
   fm2_send_email gmail_service message_text recipient st =
     st\<lparr>mail_sent := mail_sent st @ [report_message message_text recipient],
        mail_logged := mail_logged st @
          [Printed (''An error occurred while sending email: '' @ error)]\<rparr>"
  by (simp add: fm2_send_email_def report_message_def Let_def)

lemma fm2_send_email_Response:
  "gmail_service (report_message message_text recipient) = Response message_id \<Longrightarrow>
   fm2_send_email gmail_service message_text recipient st =
     st\<lparr>mail_sent := mail_sent st @ [report_message message_text recipient],
        mail_logged := mail_logged st @ [Printed (''Message Id: '' @ message_id)]\<rparr>"
  by (simp add: fm2_send_email_def report_message_def Let_def)

lemma not_message_id_line:
  "\<not> message_id_line (LogError s)"
  "c \<noteq> CHR ''M'' \<Longrightarrow> \<not> message_id_line (LogInfo (c # s))"
  "c \<noteq> CHR ''M'' \<Longrightarrow> \<not> message_id_line (Printed (c # s))"
  by (simp_all add: message_id_line_def)

lemma message_id_line_Message_Id:
  "message_id_line (LogInfo (''Message Id: '' @ m))"
  "message_id_line (Printed (''Message Id: '' @ m))"
  by (simp_all add: message_id_line_def)

lemma scan_page_no_message_id:
  "scan_page sf limit fs st = (flag, st') \<Longrightarrow> \<not> list_ex message_id_line (logged st) \<Longrightarrow>
   \<not> list_ex message_id_line (logged st')"
proof (induction fs arbitrary: st)
  case Nil
  then show ?case by simp
next
  case (Cons f fs)
  show ?case
  proof (cases "size_excluded sf f")
    case True
    with Cons show ?thesis by simp
  next
    case False
    define st2 where "st2 =
      (if (fcount st + 1) mod 100 = 0
       then st\<lparr>files := files st @ [f], fcount := fcount st + 1,
               logged := logged st @
                 [LogInfo (''Fetched '' @ show_int (fcount st + 1) @ '' files so far...'')]\<rparr>
       else st\<lparr>files := files st @ [f], fcount := fcount st + 1\<rparr>)"
    have st2: "\<not> list_ex message_id_line (logged st2)"
      using Cons.prems(2) by (simp add: st2_def not_message_id_line)
    show ?thesis
    proof (cases "fcount st + 1 \<ge> limit")
      case True
      with False Cons.prems(1) have "st' = st2"
        by (auto simp: Let_def st2_def split: if_splits)
      with st2 show ?thesis by simp
    next
      case False
      with \<open>\<not> size_excluded sf f\<close> Cons.prems(1) have "scan_page sf limit fs st2 = (flag, st')"
        by (auto simp: Let_def st2_def split: if_splits)
      from Cons.IH[OF this st2] show ?thesis .
    qed
  qed
qed

lemma fetch_loop_no_message_id:
  "fetch_loop q sf limit rs tok st = Some (r, rest) \<Longrightarrow>
   \<not> list_ex message_id_line (logged st) \<Longrightarrow> \<not> list_ex message_id_line (logged r)"
proof (induction rs arbitrary: tok st)
  case Nil
  then show ?case by simp
next
  case (Cons resp rs)
  define st0 where "st0 = st\<lparr>requests := requests st @ [list_request q tok]\<rparr>"
  have st0: "\<not> list_ex message_id_line (logged st0)"
    using Cons.prems(2) by (simp add: st0_def)
  show ?case
  proof (cases resp)
    case (HttpError e)
    with Cons.prems(1) have "r = fetch_end (st0\<lparr>logged := logged st0 @
                  [LogError (''An error occurred while fetching files: '' @ e)]\<rparr>)"
      by (simp add: Let_def st0_def)
    with st0 show ?thesis by (simp add: fetch_end_def not_message_id_line)
  next
    case (Response p)
    define fs where "fs = (case page_files p of None \<Rightarrow> [] | Some fs \<Rightarrow> fs)"
    obtain flag st1 where sc: "scan_page sf limit fs st0 = (flag, st1)"
      by (cases "scan_page sf limit fs st0") auto
    from scan_page_no_message_id[OF sc st0] have st1: "\<not> list_ex message_id_line (logged st1)" .
    then have e1: "\<not> list_ex message_id_line (logged (fetch_end st1))"
      by (simp add: fetch_end_def not_message_id_line)
    show ?thesis
    proof (cases flag)
      case True
      with Cons.prems(1) Response sc have "r = st1"
        by (simp add: Let_def st0_def[symmetric] fs_def[symmetric])
      with st1 show ?thesis by simp
    next
      case False
      show ?thesis
      proof (cases "no_token (nextPageToken p)")
        case True
        with Cons.prems(1) Response sc False have "r = fetch_end st1"
          by (simp add: Let_def st0_def[symmetric] fs_def[symmetric])
        with e1 show ?thesis by simp
      next
        case nt: False
        with Cons.prems(1) Response sc False
        have "fetch_loop q sf limit rs (nextPageToken p) st1 = Some (r, rest)"
          by (simp add: Let_def st0_def[symmetric] fs_def[symmetric])
        from Cons.IH[OF this st1] show ?thesis .
      qed
    qed
  qed
qed

lemma fetch_files_no_message_id:
  "fetch_files service q sf limit = Some (r, rest) \<Longrightarrow> \<not> list_ex message_id_line (logged r)"
  unfolding fetch_files_def
  by (erule fetch_loop_no_message_id) (simp add: fetch_init_def)

lemma main_completes_cases:
  assumes "main service gmail_service t12 t24 = Some (Inr final)"
  obtains doc lines where
    "final = (send_email gmail_service doc ''me@gmail.com'' \<lparr>mail_sent = [], mail_logged = lines\<rparr>)
       \<lparr>mail_logged := mail_logged (send_email gmail_service doc ''me@gmail.com''
            \<lparr>mail_sent = [], mail_logged = lines\<rparr>) @ [LogInfo ''Email report sent successfully.'']\<rparr>"
    "\<not> list_ex message_id_line lines"
proof -
  from assms obtain large s1 docs s2 raw s3 file_groups doc q1 q2 q3 where
    f1: "fetch_files service q1 (Some 10485760) 1000 = Some (large, s1)"
    and f2: "fetch_files s1 q2 None 1000 = Some (docs, s2)"
    and f3: "fetch_files s2 q3 (Some 10485760) 1000 = Some (raw, s3)"
    and final: "final = (send_email gmail_service doc ''me@gmail.com''
        \<lparr>mail_sent = [], mail_logged =
           [LogInfo ''Fetching large files...''] @ logged large @
                [LogInfo (''Fetched '' @ show_int (int (length (files large))) @ '' large files.''),
                 LogInfo ''Fetching old Google Docs...''] @ logged docs @
                [LogInfo (''Fetched '' @ show_int (int (length (files docs))) @
                          '' old Google Docs.''),
                 LogInfo ''Fetching potential duplicate files...''] @ logged raw @
                [LogInfo (''Found '' @ show_int (int (length (duplicate_files file_groups))) @
                          '' groups of duplicate files.''),
                 LogInfo ''Sending email report...'']\<rparr>)
       \<lparr>mail_logged := mail_logged (send_email gmail_service doc ''me@gmail.com''
        \<lparr>mail_sent = [], mail_logged =
           [LogInfo ''Fetching large files...''] @ logged large @
                [LogInfo (''Fetched '' @ show_int (int (length (files large))) @ '' large files.''),
                 LogInfo ''Fetching old Google Docs...''] @ logged docs @
                [LogInfo (''Fetched '' @ show_int (int (length (files docs))) @
                          '' old Google Docs.''),
                 LogInfo ''Fetching potential duplicate files...''] @ logged raw @
                [LogInfo (''Found '' @ show_int (int (length (duplicate_files file_groups))) @
                          '' groups of duplicate files.''),
                 LogInfo ''Sending email report...'']\<rparr>) @ [LogInfo ''Email report sent successfully.'']\<rparr>"
    unfolding main_def Let_def
    by (auto split: option.splits sum.splits prod.splits)
  note n = fetch_files_no_message_id[OF f1] fetch_files_no_message_id[OF f2]
    fetch_files_no_message_id[OF f3]
  show thesis
    by (rule that[OF final]) (use n in \<open>simp add: not_message_id_line\<close>)
qed

lemma fm2_fetch_loop_no_message_id:
  "fm2_fetch_loop q sf limit rs tok st = Some (r, rest) \<Longrightarrow>
   \<not> list_ex message_id_line (logged st) \<Longrightarrow> \<not> list_ex message_id_line (logged r)"
proof (induction rs arbitrary: tok st)
  case Nil
  then show ?case by simp
next
  case (Cons resp rs)
  define st0 where "st0 = st\<lparr>requests := requests st @ [fm2_list_request q tok]\<rparr>"
  have st0: "\<not> list_ex message_id_line (logged st0)"
    using Cons.prems(2) by (simp add: st0_def)
  show ?case
  proof (cases resp)
    case (HttpError e)
    with Cons.prems(1) have "r = st0\<lparr>logged := logged st0 @
                  [Printed (''An error occurred while fetching files: '' @ e)]\<rparr>"
      by (simp add: Let_def st0_def)
    with st0 show ?thesis by (simp add: not_message_id_line)
  next
    case (Response p)
    define fs where "fs = (case page_files p of None \<Rightarrow> [] | Some fs \<Rightarrow> fs)"
    obtain flag st1 where sc: "fm2_scan_page sf limit fs st0 = (flag, st1)"
      by (cases "fm2_scan_page sf limit fs st0") auto
    from fm2_scan_page_char[OF sc] st0 have st1: "\<not> list_ex message_id_line (logged st1)"
      by simp
    show ?thesis
    proof (cases "flag \<or> no_token (nextPageToken p)")
      case True
      with Cons.prems(1) Response sc have "r = st1"
        by (auto simp: Let_def st0_def[symmetric] fs_def[symmetric] split: if_splits bool.splits)
      with st1 show ?thesis by simp
    next
      case False
      with Cons.prems(1) Response sc
      have "fm2_fetch_loop q sf limit rs (nextPageToken p) st1 = Some (r, rest)"
        by (simp add: Let_def st0_def[symmetric] fs_def[symmetric])
      from Cons.IH[OF this st1] show ?thesis .
    qed
  qed
qed

lemma fm2_fetch_files_no_message_id:
  "fm2_fetch_files service q sf limit = Some (r, rest) \<Longrightarrow>
   \<not> list_ex message_id_line (logged r)"
  unfolding fm2_fetch_files_def
  by (erule fm2_fetch_loop_no_message_id) (simp add: fetch_init_def)

lemma fm2_main_completes_cases:
  assumes "fm2_main service gmail_service t12 t24 = Some (Inr final)"
  obtains doc lines where
    "final = (fm2_send_email gmail_service doc ''danhathway@gmail.com''
          \<lparr>mail_sent = [], mail_logged = lines\<rparr>)
       \<lparr>mail_logged := mail_logged (fm2_send_email gmail_service doc ''danhathway@gmail.com''
            \<lparr>mail_sent = [], mail_logged = lines\<rparr>) @
            [Printed ''Email report sent successfully.'']\<rparr>"
    "\<not> list_ex message_id_line lines"
proof -
  from assms obtain large s1 docs s2 doc q1 q2 where
    f1: "fm2_fetch_files service q1 (Some 20971520) 100 = Some (large, s1)"
    and f2: "fm2_fetch_files s1 q2 None 100 = Some (docs, s2)"
    and final: "final = (fm2_send_email gmail_service doc ''danhathway@gmail.com''
          \<lparr>mail_sent = [], mail_logged = logged large @ logged docs\<rparr>)
       \<lparr>mail_logged := mail_logged (fm2_send_email gmail_service doc ''danhathway@gmail.com''
            \<lparr>mail_sent = [], mail_logged = logged large @ logged docs\<rparr>) @
            [Printed ''Email report sent successfully.'']\<rparr>"
    unfolding fm2_main_def Let_def
    by (auto split: option.splits sum.splits prod.splits)
  note n = fm2_fetch_files_no_message_id[OF f1] fm2_fetch_files_no_message_id[OF f2]
  show thesis
    by (rule that[OF final]) (use n in simp)
qed

lemma main_completes_any_mail_service:
  "completes (main service gmail_service t12 t24) = completes (main service gmail_service' t12 t24)"
  by (simp add: main_def completes_def Let_def split: option.splits sum.splits prod.splits)

lemma fm2_main_completes_any_mail_service:
  "completes (fm2_main service gmail_service t12 t24) =
   completes (fm2_main service gmail_service' t12 t24)"
  by (simp add: fm2_main_def completes_def Let_def split: option.splits sum.splits prod.splits)

lemma main_log:
  assumes "main service gmail_service t12 t24 = Some (Inr final)"
  shows "\<exists>doc lines. mail_sent final = [report_message doc ''me@gmail.com''] \<and>
          \<not> list_ex message_id_line lines \<and>
          (\<forall>error. gmail_service (report_message doc ''me@gmail.com'') = HttpError error \<longrightarrow>
             mail_logged final = lines @
               [LogError (''An error occurred while sending email: '' @ error),
                LogInfo ''Email report sent successfully.'']) \<and>
          (\<forall>message_id. gmail_service (report_message doc ''me@gmail.com'') = Response message_id \<longrightarrow>
             mail_logged final = lines @
               [LogInfo (''Message Id: '' @ message_id),
                LogInfo ''Email report sent successfully.'']) \<and>
          list_ex message_id_line (mail_logged final) =
            (\<exists>message_id. gmail_service (report_message doc ''me@gmail.com'') = Response message_id)"
proof -
  from assms obtain doc lines where
    final: "final = (send_email gmail_service doc ''me@gmail.com'' \<lparr>mail_sent = [], mail_logged = lines\<rparr>)
       \<lparr>mail_logged := mail_logged (send_email gmail_service doc ''me@gmail.com''
            \<lparr>mail_sent = [], mail_logged = lines\<rparr>) @ [LogInfo ''Email report sent successfully.'']\<rparr>"
    and lines: "\<not> list_ex message_id_line lines"
    by (rule main_completes_cases)
  have "mail_sent final = [report_message doc ''me@gmail.com''] \<and>
          \<not> list_ex message_id_line lines \<and>
          (\<forall>error. gmail_service (report_message doc ''me@gmail.com'') = HttpError error \<longrightarrow>
             mail_logged final = lines @
               [LogError (''An error occurred while sending email: '' @ error),
                LogInfo ''Email report sent successfully.'']) \<and>
          (\<forall>message_id. gmail_service (report_message doc ''me@gmail.com'') = Response message_id \<longrightarrow>
             mail_logged final = lines @
               [LogInfo (''Message Id: '' @ message_id),
                LogInfo ''Email report sent successfully.'']) \<and>
          list_ex message_id_line (mail_logged final) =
            (\<exists>message_id. gmail_service (report_message doc ''me@gmail.com'') = Response message_id)"
  proof (cases "gmail_service (report_message doc ''me@gmail.com'')")
    case (HttpError e)
    from send_email_HttpError[of gmail_service doc "''me@gmail.com''" e, OF this] final lines HttpError show ?thesis
      by (simp add: not_message_id_line)
  next
    case (Response m)
    from send_email_Response[of gmail_service doc "''me@gmail.com''" m, OF this] final lines Response show ?thesis
      by (simp add: not_message_id_line message_id_line_Message_Id[simplified])
  qed
  then show ?thesis by blast
qed

lemma fm2_main_log:
  assumes "fm2_main service gmail_service t12 t24 = Some (Inr final)"
  shows "\<exists>doc lines. mail_sent final = [report_message doc ''danhathway@gmail.com''] \<and>
          \<not> list_ex message_id_line lines \<and>
          (\<forall>error. gmail_service (report_message doc ''danhathway@gmail.com'') = HttpError error \<longrightarrow>
             mail_logged final = lines @
               [Printed (''An error occurred while sending email: '' @ error),
                Printed ''Email report sent successfully.'']) \<and>
          (\<forall>message_id. gmail_service (report_message doc ''danhathway@gmail.com'') = Response message_id \<longrightarrow>
             mail_logged final = lines @
               [Printed (''Message Id: '' @ message_id),
                Printed ''Email report sent successfully.'']) \<and>
          list_ex message_id_line (mail_logged final) =
            (\<exists>message_id. gmail_service (report_message doc ''danhathway@gmail.com'') = Response message_id)"
proof -
  from assms obtain doc lines where
    final: "final = (fm2_send_email gmail_service doc ''danhathway@gmail.com''
          \<lparr>mail_sent = [], mail_logged = lines\<rparr>)
       \<lparr>mail_logged := mail_logged (fm2_send_email gmail_service doc ''danhathway@gmail.com''
            \<lparr>mail_sent = [], mail_logged = lines\<rparr>) @
            [Printed ''Email report sent successfully.'']\<rparr>"
    and lines: "\<not> list_ex message_id_line lines"
    by (rule fm2_main_completes_cases)
  have "mail_sent final = [report_message doc ''danhathway@gmail.com''] \<and>
          \<not> list_ex message_id_line lines \<and>
          (\<forall>error. gmail_service (report_message doc ''danhathway@gmail.com'') = HttpError error \<longrightarrow>
             mail_logged final = lines @
               [Printed (''An error occurred while sending email: '' @ error),
                Printed ''Email report sent successfully.'']) \<and>
          (\<forall>message_id. gmail_service (report_message doc ''danhathway@gmail.com'') = Response message_id \<longrightarrow>
             mail_logged final = lines @
               [Printed (''Message Id: '' @ message_id),
                Printed ''Email report sent successfully.'']) \<and>
          list_ex message_id_line (mail_logged final) =
            (\<exists>message_id. gmail_service (report_message doc ''danhathway@gmail.com'') = Response message_id)"
  proof (cases "gmail_service (report_message doc ''danhathway@gmail.com'')")
    case (HttpError e)
    from fm2_send_email_HttpError[of gmail_service doc "''danhathway@gmail.com''" e, OF this] final lines HttpError show ?thesis
      by (simp add: not_message_id_line)
  next
    case (Response m)
    from fm2_send_email_Response[of gmail_service doc "''danhathway@gmail.com''" m, OF this] final lines Response show ?thesis
      by (simp add: not_message_id_line message_id_line_Message_Id[simplified])
  qed
  then show ?thesis by blast
qed

lemmas run_eval = main_def fm2_main_def send_email_def fm2_send_email_def report_message_def
  process_duplicate_files_def duplicate_files_def example_page_def

text \<open>
  Claim C8. When the mail service raises \<^verbatim>\<open>HttpError\<close>, \<^verbatim>\<open>send_email\<close> (in both
  scripts) hands the service the one message, logs the error, logs no message identifier and
  returns; when the service answers, it logs the identifier. In a run of \<^verbatim>\<open>main\<close> that
  reaches its end exactly one message was handed to the mail service, the lines before the
  send hold no message identifier, the log ends with the line of the send and the closing
  line, and a message identifier is in the log exactly when the mail service answered.
  Whether a run reaches its end does not depend on the mail service.
\<close>

theorem send_email_transport_error:
  "(gmail_service (report_message message_text recipient) = HttpError error \<longrightarrow>
      send_email gmail_service message_text recipient st =
        st\<lparr>mail_sent := mail_sent st @ [report_message message_text recipient],
           mail_logged := mail_logged st @
             [LogError (''An error occurred while sending email: '' @ error)]\<rparr> \<and>
      fm2_send_email gmail_service message_text recipient st =
        st\<lparr>mail_sent := mail_sent st @ [report_message message_text recipient],
           mail_logged := mail_logged st @
             [Printed (''An error occurred while sending email: '' @ error)]\<rparr>) \<and>
   (gmail_service (report_message message_text recipient) = Response message_id \<longrightarrow>
      send_email gmail_service message_text recipient st =
        st\<lparr>mail_sent := mail_sent st @ [report_message message_text recipient],
           mail_logged := mail_logged st @ [LogInfo (''Message Id: '' @ message_id)]\<rparr> \<and>
      fm2_send_email gmail_service message_text recipient st =
        st\<lparr>mail_sent := mail_sent st @ [report_message message_text recipient],
           mail_logged := mail_logged st @ [Printed (''Message Id: '' @ message_id)]\<rparr>) \<and>
   (main service gmail_service t12 t24 = Some (Inr final) \<longrightarrow>
      (\<exists>doc lines. mail_sent final = [report_message doc ''me@gmail.com''] \<and>
          \<not> list_ex message_id_line lines \<and>
          (\<forall>error. gmail_service (report_message doc ''me@gmail.com'') = HttpError error \<longrightarrow>
             mail_logged final = lines @
               [LogError (''An error occurred while sending email: '' @ error),
                LogInfo ''Email report sent successfully.'']) \<and>
          (\<forall>message_id. gmail_service (report_message doc ''me@gmail.com'') = Response message_id \<longrightarrow>
             mail_logged final = lines @
               [LogInfo (''Message Id: '' @ message_id),
                LogInfo ''Email report sent successfully.'']) \<and>
          list_ex message_id_line (mail_logged final) =
            (\<exists>message_id. gmail_service (report_message doc ''me@gmail.com'') = Response message_id))) \<and>
   (fm2_main service gmail_service t12 t24 = Some (Inr final') \<longrightarrow>
      (\<exists>doc lines. mail_sent final' = [report_message doc ''danhathway@gmail.com''] \<and>
          \<not> list_ex message_id_line lines \<and>
          (\<forall>error. gmail_service (report_message doc ''danhathway@gmail.com'') = HttpError error \<longrightarrow>
             mail_logged final' = lines @
               [Printed (''An error occurred while sending email: '' @ error),
                Printed ''Email report sent successfully.'']) \<and>
          (\<forall>message_id. gmail_service (report_message doc ''danhathway@gmail.com'') = Response message_id \<longrightarrow>
             mail_logged final' = lines @
               [Printed (''Message Id: '' @ message_id),
                Printed ''Email report sent successfully.'']) \<and>
          list_ex message_id_line (mail_logged final') =
            (\<exists>message_id. gmail_service (report_message doc ''danhathway@gmail.com'') = Response message_id))) \<and>
   completes (main service gmail_service t12 t24) =
     completes (main service other_gmail_service t12 t24) \<and>
   completes (fm2_main service gmail_service t12 t24) =
     completes (fm2_main service other_gmail_service t12 t24)"
proof (intro conjI impI)
  assume h: "gmail_service (report_message message_text recipient) = HttpError error"
  show "send_email gmail_service message_text recipient st =
        st\<lparr>mail_sent := mail_sent st @ [report_message message_text recipient],
           mail_logged := mail_logged st @
             [LogError (''An error occurred while sending email: '' @ error)]\<rparr>"
    using h by (rule send_email_HttpError)
  show "fm2_send_email gmail_service message_text recipient st =
        st\<lparr>mail_sent := mail_sent st @ [report_message message_text recipient],
           mail_logged := mail_logged st @
             [Printed (''An error occurred while sending email: '' @ error)]\<rparr>"
    using h by (rule fm2_send_email_HttpError)
next
  assume h: "gmail_service (report_message message_text recipient) = Response message_id"
  show "send_email gmail_service message_text recipient st =
        st\<lparr>mail_sent := mail_sent st @ [report_message message_text recipient],
           mail_logged := mail_logged st @ [LogInfo (''Message Id: '' @ message_id)]\<rparr>"
    using h by (rule send_email_Response)
  show "fm2_send_email gmail_service message_text recipient st =
        st\<lparr>mail_sent := mail_sent st @ [report_message message_text recipient],
           mail_logged := mail_logged st @ [Printed (''Message Id: '' @ message_id)]\<rparr>"
    using h by (rule fm2_send_email_Response)
next
  assume "main service gmail_service t12 t24 = Some (Inr final)"
  then show "\<exists>doc lines. mail_sent final = [report_message doc ''me@gmail.com''] \<and>
          \<not> list_ex message_id_line lines \<and>
          (\<forall>error. gmail_service (report_message doc ''me@gmail.com'') = HttpError error \<longrightarrow>
             mail_logged final = lines @
               [LogError (''An error occurred while sending email: '' @ error),
                LogInfo ''Email report sent successfully.'']) \<and>
          (\<forall>message_id. gmail_service (report_message doc ''me@gmail.com'') = Response message_id \<longrightarrow>
             mail_logged final = lines @
               [LogInfo (''Message Id: '' @ message_id),
                LogInfo ''Email report sent successfully.'']) \<and>
          list_ex message_id_line (mail_logged final) =
            (\<exists>message_id. gmail_service (report_message doc ''me@gmail.com'') = Response message_id)"
    by (rule main_log)
next
  assume "fm2_main service gmail_service t12 t24 = Some (Inr final')"
  then show "\<exists>doc lines. mail_sent final' = [report_message doc ''danhathway@gmail.com''] \<and>
          \<not> list_ex message_id_line lines \<and>
          (\<forall>error. gmail_service (report_message doc ''danhathway@gmail.com'') = HttpError error \<longrightarrow>
             mail_logged final' = lines @
               [Printed (''An error occurred while sending email: '' @ error),
                Printed ''Email report sent successfully.'']) \<and>
          (\<forall>message_id. gmail_service (report_message doc ''danhathway@gmail.com'') = Response message_id \<longrightarrow>
             mail_logged final' = lines @
               [Printed (''Message Id: '' @ message_id),
                Printed ''Email report sent successfully.'']) \<and>
          list_ex message_id_line (mail_logged final') =
            (\<exists>message_id. gmail_service (report_message doc ''danhathway@gmail.com'') = Response message_id)"
    by (rule fm2_main_log)
next
  show "completes (main service gmail_service t12 t24) =
     completes (main service other_gmail_service t12 t24)"
    by (rule main_completes_any_mail_service)
  show "completes (fm2_main service gmail_service t12 t24) =
     completes (fm2_main service other_gmail_service t12 t24)"
    by (rule fm2_main_completes_any_mail_service)
qed

text \<open>
  A mail service that always fails: \<^verbatim>\<open>send_email\<close> alone, and the log of a whole run over
  three empty listings.
\<close>

theorem send_email_transport_error_witness:
  "send_email (\<lambda>message. HttpError ''503'') ''<html></html>'' ''me@gmail.com''
      \<lparr>mail_sent = [], mail_logged = []\<rparr> =
     \<lparr>mail_sent = [report_message ''<html></html>'' ''me@gmail.com''],
      mail_logged = [LogError ''An error occurred while sending email: 503'']\<rparr> \<and>
   map_option (map_sum id mail_logged)
     (main [example_page [] None, example_page [] None, example_page [] None]
        (\<lambda>message. HttpError ''503'') ''2025-11-04'' ''2024-11-04'') =
     Some (Inr [LogInfo ''Fetching large files...'',
             LogInfo ''Total files fetched: 0'',
             LogInfo ''Fetched 0 large files.'',
             LogInfo ''Fetching old Google Docs...'',
             LogInfo ''Total files fetched: 0'',
             LogInfo ''Fetched 0 old Google Docs.'',
             LogInfo ''Fetching potential duplicate files...'',
             LogInfo ''Total files fetched: 0'',
             LogInfo ''Found 0 groups of duplicate files.'',
             LogInfo ''Sending email report...'',
             LogError ''An error occurred while sending email: 503'',
             LogInfo ''Email report sent successfully.''])"
proof -
  have h: "(\<lambda>message. HttpError ''503'') (report_message ''<html></html>'' ''me@gmail.com'')
      = HttpError ''503''"
    by simp
  have run: ?thesis
    by (simp add: run_eval fetch_eval report_eval)
  show ?thesis
    using send_email_transport_error[THEN conjunct1, THEN mp,
        of "\<lambda>message. HttpError ''503''" "''<html></html>''" "''me@gmail.com''" "''503''", OF h]
    by - (rule run)
qed

section \<open>What a run depends on\<close>

text \<open>
  The query of a call of \<^verbatim>\<open>fetch_files\<close> goes into its requests and nowhere else.
\<close>

lemma scan_page_same:
  "files st = files st' \<Longrightarrow> fcount st = fcount st' \<Longrightarrow> logged st = logged st' \<Longrightarrow>
   scan_page sf limit fs st = (flag, st1) \<Longrightarrow> scan_page sf limit fs st' = (flag', st1') \<Longrightarrow>
   flag = flag' \<and> files st1 = files st1' \<and> fcount st1 = fcount st1' \<and> logged st1 = logged st1'"
proof (induction fs arbitrary: st st')
  case Nil
  then show ?case by auto
next
  case (Cons f fs)
  show ?case
  proof (cases "size_excluded sf f")
    case True
    with Cons.prems Cons.IH[of st st'] show ?thesis by simp
  next
    case False
    define next_state where "next_state = (\<lambda>st::fetch_state.
      (if (fcount st + 1) mod 100 = 0
       then st\<lparr>files := files st @ [f], fcount := fcount st + 1,
               logged := logged st @
                 [LogInfo (''Fetched '' @ show_int (fcount st + 1) @ '' files so far...'')]\<rparr>
       else st\<lparr>files := files st @ [f], fcount := fcount st + 1\<rparr>))"
    have eq: "files (next_state st) = files (next_state st')"
      "fcount (next_state st) = fcount (next_state st')"
      "logged (next_state st) = logged (next_state st')"
      "fcount (next_state st) = fcount st + 1"
      using Cons.prems(1-3) by (simp_all add: next_state_def)
    show ?thesis
    proof (cases "fcount st + 1 \<ge> limit")
      case True
      with False Cons.prems have "flag" "st1 = next_state st" "flag'" "st1' = next_state st'"
        by (auto simp: Let_def next_state_def split: if_splits)
      with eq show ?thesis by simp
    next
      case ge: False
      with False Cons.prems have "scan_page sf limit fs (next_state st) = (flag, st1)"
        "scan_page sf limit fs (next_state st') = (flag', st1')"
        by (auto simp: Let_def next_state_def split: if_splits)
      from Cons.IH[OF eq(1-3) this] show ?thesis .
    qed
  qed
qed

lemma fetch_loop_any_query:
  "files st = files st' \<Longrightarrow> fcount st = fcount st' \<Longrightarrow> logged st = logged st' \<Longrightarrow>
   map_option (\<lambda>(r, rest). (files r, fcount r, logged r, rest)) (fetch_loop q sf limit rs tok st) =
   map_option (\<lambda>(r, rest). (files r, fcount r, logged r, rest)) (fetch_loop q' sf limit rs tok st')"
proof (induction rs arbitrary: tok st st')
  case Nil
  show ?case by simp
next
  case (Cons resp rs)
  define st0 where "st0 = st\<lparr>requests := requests st @ [list_request q tok]\<rparr>"
  define st0' where "st0' = st'\<lparr>requests := requests st' @ [list_request q' tok]\<rparr>"
  have eq0: "files st0 = files st0'" "fcount st0 = fcount st0'" "logged st0 = logged st0'"
    using Cons.prems by (simp_all add: st0_def st0'_def)
  show ?case
  proof (cases resp)
    case (HttpError e)
    then show ?thesis using eq0 by (simp add: Let_def st0_def st0'_def fetch_end_def)
  next
    case (Response p)
    define fs where "fs = (case page_files p of None \<Rightarrow> [] | Some fs \<Rightarrow> fs)"
    obtain flag st1 where sc: "scan_page sf limit fs st0 = (flag, st1)"
      by (cases "scan_page sf limit fs st0") auto
    obtain flag' st1' where sc': "scan_page sf limit fs st0' = (flag', st1')"
      by (cases "scan_page sf limit fs st0'") auto
    from scan_page_same[OF eq0 sc sc']
    have eq1: "files st1 = files st1'" "fcount st1 = fcount st1'" "logged st1 = logged st1'"
      and fl: "flag = flag'"
      by simp_all
    show ?thesis
      using Response sc sc' eq1 fl Cons.IH[OF eq1, of "nextPageToken p"]
      by (simp add: Let_def st0_def[symmetric] st0'_def[symmetric] fs_def[symmetric]
            fetch_end_def split: bool.splits)
  qed
qed

lemma fetch_files_any_query:
  "outcome (fetch_files service q sf limit) = outcome (fetch_files service q' sf limit)"
proof -
  have "map_option (\<lambda>(r, rest). (files r, fcount r, logged r, rest)) (fetch_files service q sf limit) =
   map_option (\<lambda>(r, rest). (files r, fcount r, logged r, rest)) (fetch_files service q' sf limit)"
    unfolding fetch_files_def by (rule fetch_loop_any_query) simp_all
  then show ?thesis
    by (cases "fetch_files service q sf limit"; cases "fetch_files service q' sf limit")
       (auto simp: outcome_def)
qed

lemma fm2_scan_page_same:
  "files st = files st' \<Longrightarrow> fcount st = fcount st' \<Longrightarrow> logged st = logged st' \<Longrightarrow>
   fm2_scan_page sf limit fs st = (flag, st1) \<Longrightarrow> fm2_scan_page sf limit fs st' = (flag', st1') \<Longrightarrow>
   flag = flag' \<and> files st1 = files st1' \<and> fcount st1 = fcount st1' \<and> logged st1 = logged st1'"
  using fm2_scan_page_char[of sf limit fs st flag st1] fm2_scan_page_char[of sf limit fs st' flag' st1']
  by simp

lemma fm2_fetch_loop_any_query:
  "files st = files st' \<Longrightarrow> fcount st = fcount st' \<Longrightarrow> logged st = logged st' \<Longrightarrow>
   map_option (\<lambda>(r, rest). (files r, fcount r, logged r, rest)) (fm2_fetch_loop q sf limit rs tok st) =
   map_option (\<lambda>(r, rest). (files r, fcount r, logged r, rest)) (fm2_fetch_loop q' sf limit rs tok st')"
proof (induction rs arbitrary: tok st st')
  case Nil
  show ?case by simp
next
  case (Cons resp rs)
  define st0 where "st0 = st\<lparr>requests := requests st @ [fm2_list_request q tok]\<rparr>"
  define st0' where "st0' = st'\<lparr>requests := requests st' @ [fm2_list_request q' tok]\<rparr>"
  have eq0: "files st0 = files st0'" "fcount st0 = fcount st0'" "logged st0 = logged st0'"
    using Cons.prems by (simp_all add: st0_def st0'_def)
  show ?case
  proof (cases resp)
    case (HttpError e)
    then show ?thesis using eq0 by (simp add: Let_def st0_def st0'_def)
  next
    case (Response p)
    define fs where "fs = (case page_files p of None \<Rightarrow> [] | Some fs \<Rightarrow> fs)"
    obtain flag st1 where sc: "fm2_scan_page sf limit fs st0 = (flag, st1)"
      by (cases "fm2_scan_page sf limit fs st0") auto
    obtain flag' st1' where sc': "fm2_scan_page sf limit fs st0' = (flag', st1')"
      by (cases "fm2_scan_page sf limit fs st0'") auto
    from fm2_scan_page_same[OF eq0 sc sc']
    have eq1: "files st1 = files st1'" "fcount st1 = fcount st1'" "logged st1 = logged st1'"
      and fl: "flag = flag'"
      by simp_all
    show ?thesis
      using Response sc sc' eq1 fl Cons.IH[OF eq1, of "nextPageToken p"]
      by (simp add: Let_def st0_def[symmetric] st0'_def[symmetric] fs_def[symmetric]
            split: bool.splits)
  qed
qed

lemma fm2_fetch_files_any_query:
  "outcome (fm2_fetch_files service q sf limit) = outcome (fm2_fetch_files service q' sf limit)"
proof -
  have "map_option (\<lambda>(r, rest). (files r, fcount r, logged r, rest)) (fm2_fetch_files service q sf limit) =
   map_option (\<lambda>(r, rest). (files r, fcount r, logged r, rest)) (fm2_fetch_files service q' sf limit)"
    unfolding fm2_fetch_files_def by (rule fm2_fetch_loop_any_query) simp_all
  then show ?thesis
    by (cases "fm2_fetch_files service q sf limit"; cases "fm2_fetch_files service q' sf limit")
       (auto simp: outcome_def)
qed

lemma fetch_case_cong:
  assumes "outcome a = outcome b"
    and "\<And>r r' rest. files r = files r' \<Longrightarrow> logged r = logged r' \<Longrightarrow> f r rest = f' r' rest"
  shows "(case a of None \<Rightarrow> None | Some (r, rest) \<Rightarrow> f r rest) =
         (case b of None \<Rightarrow> None | Some (r, rest) \<Rightarrow> f' r rest)"
  using assms by (cases a; cases b) (auto simp: outcome_def)

lemma main_any_clock:
  "main service gmail_service t12 t24 = main service gmail_service t12' t24'"
  unfolding main_def Let_def
  apply (rule fetch_case_cong[OF fetch_files_any_query])
  apply (rule fetch_case_cong[OF fetch_files_any_query])
  apply (rule fetch_case_cong[OF fetch_files_any_query])
  apply (simp split: sum.splits)
  done

lemma fm2_main_any_clock:
  "fm2_main service gmail_service t12 t24 = fm2_main service gmail_service t12' t24'"
  unfolding fm2_main_def Let_def
  apply (rule fetch_case_cong[OF fm2_fetch_files_any_query])
  apply (rule fetch_case_cong[OF fm2_fetch_files_any_query])
  apply (simp split: sum.splits)
  done

subsection \<open>The same sections give the same document\<close>

text \<open>
  Claim C7. The f-string reads nothing but the three sections (two in \<^verbatim>\<open>fm2.py\<close>), so
  two evaluations on equal sections in equal order give the same result, be it the document
  or the exception. A whole run reads the clock for its queries only: on the same answers of
  the listing service and of the mail service it has the same outcome, with the same document,
  whatever the two dates are.
\<close>

theorem report_deterministic:
  "(large_files = large_files' \<and> old_docs = old_docs' \<and> file_groups = file_groups' \<longrightarrow>
     report large_files old_docs file_groups = report large_files' old_docs' file_groups' \<and>
     fm2_report large_files old_docs = fm2_report large_files' old_docs') \<and>
   main service gmail_service t12 t24 = main service gmail_service t12' t24' \<and>
   fm2_main service gmail_service t12 t24 = fm2_main service gmail_service t12' t24'"
  using main_any_clock[of service gmail_service t12 t24 t12' t24']
    fm2_main_any_clock[of service gmail_service t12 t24 t12' t24']
  by simp

text \<open>
  The document of three empty sections is the fixed text; two runs on the same answers at
  different dates are the same run.
\<close>

theorem report_deterministic_witness:
  "report [] [] [] = Inr (report_head @ report_docs_head @ report_duplicates_head @ report_tail) \<and>
   main [example_page [example_file ''a'' ''x'' (Some 20000000)] None, example_page [] None,
         example_page [] None] (\<lambda>message. Response ''m1'') ''2025-11-04'' ''2024-11-04'' =
   main [example_page [example_file ''a'' ''x'' (Some 20000000)] None, example_page [] None,
         example_page [] None] (\<lambda>message. Response ''m1'') ''2025-12-01'' ''2024-12-01''"
proof -
  have h: "([] :: file_rec list) = [] \<and> ([] :: file_rec list) = [] \<and> ([] :: file_groups) = []"
    by simp
  have run: "report [] [] [] =
      Inr (report_head @ report_docs_head @ report_duplicates_head @ report_tail)"
    by (simp add: report_def)
  note inst = report_deterministic[of "[]" "[]" "[]" "[]" "[]" "[]"
      "[example_page [example_file ''a'' ''x'' (Some 20000000)] None, example_page [] None,
         example_page [] None]" "\<lambda>message. Response ''m1''"
      "''2025-11-04''" "''2024-11-04''" "''2025-12-01''" "''2024-12-01''"]
  from inst[THEN conjunct1, THEN mp, OF h] inst[THEN conjunct2, THEN conjunct1] run
  show ?thesis by simp
qed

subsection \<open>The exceptions of a run\<close>

text \<open>
  In \<^verbatim>\<open>main\<close> of \<^verbatim>\<open>filemail.py\<close> the large files and the candidates for duplicates come
  through the size filter of 10485760 bytes, which drops a record without a size. So the
  subscripts \<^verbatim>\<open>file['size']\<close> of the grouper and of the report find their key, and the
  only exception that leaves such a run is the \<^verbatim>\<open>IndexError\<close> of an empty list of parents.
\<close>

lemma fetch_files_sizes_present:
  assumes "0 < t" and "fetch_files service q (Some t) limit = Some (r, rest)"
  shows "\<forall>f \<in> set (files r). file_size f \<noteq> None"
proof -
  from assms(2) have "fetch_loop q (Some t) limit service None fetch_init = Some (r, rest)"
    by (simp add: fetch_files_def)
  from fetch_loop_prefix[OF this] obtain n where
    "files r = take n (accepted (Some t) (all_records service))"
    by (auto simp: fetch_init_def)
  with assms(1) have "\<forall>f \<in> set (files r). t < size_or_0 f"
    by (auto simp: accepted_nonzero dest: in_set_takeD)
  with assms(1) show ?thesis by (fastforce simp: size_or_0_def split: option.splits)
qed

lemma join_items_error:
  "join_items f xs = Inl e \<Longrightarrow> \<exists>x \<in> set xs. f x = Inl e"
  by (induction xs) (auto split: sum.splits)

lemma group_item_error: "group_item item = Inl e \<Longrightarrow> e = IndexError"
proof -
  assume "group_item item = Inl e"
  then have "join_items member_item (snd item) = Inl e"
    by (simp add: group_item_def split: sum.splits)
  from join_items_error[OF this] obtain f where "member_item f = Inl e" by blast
  then show ?thesis
    by (simp add: member_item_def split: list.splits)
qed

lemma report_error:
  assumes "\<forall>f \<in> set large_files. file_size f \<noteq> None"
    and "report large_files old_docs file_groups = Inl e"
  shows "e = IndexError"
proof -
  from large_items_Inr[OF assms(1)] obtain large where
    l: "join_items large_item large_files = Inr large" by blast
  obtain docs where d: "join_items doc_item old_docs = Inr docs"
    using doc_items_Inr by blast
  from assms(2) l d have
    "join_items group_item (filter (\<lambda>item. length (snd item) > 1) file_groups) = Inl e"
    by (simp add: report_def split: sum.splits)
  from join_items_error[OF this] obtain item where "group_item item = Inl e" by blast
  then show ?thesis by (rule group_item_error)
qed

lemma filtered_records_group:
  assumes "fetch_files service q (Some 10485760) 1000 = Some (raw, rest)"
  shows "process_duplicate_files (files raw) \<noteq> Inl e"
proof -
  have "\<forall>f \<in> set (files raw). file_size f \<noteq> None"
    by (rule fetch_files_sizes_present[OF _ assms]) simp
  from process_duplicate_files_grouped[OF this] show ?thesis by auto
qed

lemma filtered_records_report:
  assumes "fetch_files service q (Some 10485760) 1000 = Some (large, rest)"
    and "report (files large) old_docs file_groups = Inl e"
  shows "e = IndexError"
proof -
  have "\<forall>f \<in> set (files large). file_size f \<noteq> None"
    by (rule fetch_files_sizes_present[OF _ assms(1)]) simp
  from report_error[OF this assms(2)] show ?thesis .
qed

lemma main_raises_only_IndexError:
  assumes "main service gmail_service t12 t24 = Some (Inl e)"
  shows "e = IndexError"
  using assms unfolding main_def Let_def
  by (auto split: option.splits prod.splits sum.splits
        dest: filtered_records_report simp: filtered_records_group)

end
